theory Spec2Isabelle
  imports Complex_Main
begin

section \<open>Strings\<close>

text \<open>
  The notebook builds and parses column names with three string operations of Python:
  \<^verbatim>\<open>col.split("_")\<close>, \<^verbatim>\<open>col.startswith("(")\<close> and \<^verbatim>\<open>col.endswith(f"_{ticker}")\<close>.
  \<open>split_on c s\<close> is \<^verbatim>\<open>s.split(c)\<close> for a separator of one character: the result is never
  empty, and \<^verbatim>\<open>[-1]\<close> on it is \<open>last\<close>.
\<close>

fun split_on :: "char \<Rightarrow> string \<Rightarrow> string list" where
  "split_on c [] = [[]]"
| "split_on c (x # xs) =
     (if x = c then [] # split_on c xs
      else (case split_on c xs of [] \<Rightarrow> [[x]] | w # ws \<Rightarrow> (x # w) # ws))"

definition startswith :: "string \<Rightarrow> string \<Rightarrow> bool" where
  "startswith s p = (take (length p) s = p)"

definition endswith :: "string \<Rightarrow> string \<Rightarrow> bool" where
  "endswith s p = (length p \<le> length s \<and> drop (length s - length p) s = p)"

text \<open>
  The rule of the specification for reading a symbol back: everything after the first
  separator of the column name. It is not what the notebook computes; it is defined here
  only to be compared with the notebook's rule.
\<close>

definition spec_after_first_sep :: "string \<Rightarrow> string" where
  "spec_after_first_sep col = tl (dropWhile (\<lambda>x. x \<noteq> CHR ''_'') col)"

section \<open>Tables\<close>

text \<open>
  A pandas DataFrame indexed by date: the column labels in order, and the rows in order,
  each row a date with one cell per column. A cell is a number or NaN (\<open>None\<close>). The type
  of the labels is a parameter: the downloaded tables have two-level labels
  \<open>(field, ticker)\<close>, the merged table has strings. Every row of a DataFrame has as many
  cells as there are columns (\<open>wf\<close>), and the column names of a table read back from CSV
  are distinct.
\<close>

type_synonym date = int
type_synonym cell = "real option"

record 'l frame =
  columns :: "'l list"
  rows :: "(date \<times> cell list) list"

datatype error = KeyError | ValueError | NameError

definition DataFrame :: "'l frame" where
  "DataFrame = \<lparr>columns = [], rows = []\<rparr>"

definition index :: "'l frame \<Rightarrow> date list" where
  "index f = map fst (rows f)"

definition wf :: "'l frame \<Rightarrow> bool" where
  "wf f = list_all (\<lambda>(d, r). length r = length (columns f)) (rows f)"

text \<open>\<^verbatim>\<open>df.empty\<close>: some axis has length 0.\<close>

definition frame_empty :: "'l frame \<Rightarrow> bool" where
  "frame_empty f = (columns f = [] \<or> rows f = [])"

text \<open>
  \<^verbatim>\<open>df[keys]\<close> with a list of keys: for each key in turn, the columns whose key it is;
  KeyError when a key names no column. On two-level labels the key of a column is its
  first level (\<open>key = fst\<close>), on plain names the name itself (\<open>key = id\<close>). The result is
  a new table.
\<close>

definition getitem :: "('l \<Rightarrow> 'k) \<Rightarrow> 'k list \<Rightarrow> 'l frame \<Rightarrow> error + 'l frame" where
  "getitem key ks f =
     (if \<exists>k \<in> set ks. k \<notin> key ` set (columns f) then Inl KeyError
      else Inr \<lparr>columns = concat (map (\<lambda>k. filter (\<lambda>c. key c = k) (columns f)) ks),
                rows = map (\<lambda>(d, r). (d, concat (map (\<lambda>k. map snd (filter (\<lambda>(c, v). key c = k)
                                (zip (columns f) r))) ks))) (rows f)\<rparr>)"

text \<open>\<^verbatim>\<open>df.columns = names\<close>: ValueError (length mismatch) unless there is one name per column.\<close>

definition set_columns :: "'m list \<Rightarrow> 'l frame \<Rightarrow> error + 'm frame" where
  "set_columns names f =
     (if length names \<noteq> length (columns f) then Inl ValueError
      else Inr \<lparr>columns = names, rows = rows f\<rparr>)"

text \<open>\<^verbatim>\<open>df.dropna()\<close>: the rows without NaN, in order.\<close>

definition dropna :: "'l frame \<Rightarrow> 'l frame" where
  "dropna f = \<lparr>columns = columns f, rows = filter (\<lambda>(d, r). list_all (\<lambda>v. v \<noteq> None) r) (rows f)\<rparr>"

text \<open>\<^verbatim>\<open>df.tail(n)\<close> for \<open>n \<ge> 0\<close>: the last \<open>n\<close> rows, all of them when there are fewer.\<close>

definition tail_rows :: "nat \<Rightarrow> 'l frame \<Rightarrow> 'l frame" where
  "tail_rows n f = \<lparr>columns = columns f, rows = drop (length (rows f) - n) (rows f)\<rparr>"

text \<open>
  \<^verbatim>\<open>left.join(right, how="outer")\<close> on date indexes without duplicates: ValueError when a
  column name occurs on both sides; otherwise one row per date of either side, in
  ascending order, NaN where a side has no row for the date.
\<close>

definition row_at :: "'l frame \<Rightarrow> date \<Rightarrow> cell list" where
  "row_at f d = (case map_of (rows f) d of Some r \<Rightarrow> r
                 | None \<Rightarrow> replicate (length (columns f)) None)"

definition join_outer :: "'l frame \<Rightarrow> 'l frame \<Rightarrow> error + 'l frame" where
  "join_outer l r =
     (if \<exists>c \<in> set (columns l). c \<in> set (columns r) then Inl ValueError
      else Inr \<lparr>columns = columns l @ columns r,
                rows = map (\<lambda>d. (d, row_at l d @ row_at r d)) (sort (remdups (index l @ index r)))\<rparr>)"

section \<open>Merging the downloaded series\<close>

text \<open>
  The download is an external call and a parameter of the loop. \<^verbatim>\<open>yf.download\<close> returns
  a table for one ticker with the two-level column labels \<open>(field, ticker)\<close> that the
  recorded output of the notebook shows (\<^verbatim>\<open>('Open', '^GSPC')_^GSPC\<close>): \<open>yf_frame\<close> builds
  such a table from the data of a series, one bar of numbers per date. A fetch that
  fails does not raise: \<^verbatim>\<open>yf.download\<close> reports the failure and returns the table with
  no rows. So in a mapping from symbols to series a symbol whose fetch failed, be its
  series empty or absent, is downloaded as the table of the empty series.
\<close>

record bar =
  bar_open :: real
  bar_high :: real
  bar_low :: real
  bar_close :: real
  bar_volume :: real

type_synonym series = "(date \<times> bar) list"

definition yf_frame :: "string \<Rightarrow> series \<Rightarrow> (string \<times> string) frame" where
  "yf_frame ticker s =
     \<lparr>columns = map (\<lambda>f. (f, ticker)) [''Close'', ''High'', ''Low'', ''Open'', ''Volume''],
      rows = map (\<lambda>(d, b). (d, [Some (bar_close b), Some (bar_high b), Some (bar_low b),
                                 Some (bar_open b), Some (bar_volume b)])) s\<rparr>"

definition series_of :: "(string \<Rightarrow> series option) \<Rightarrow> string \<Rightarrow> series" where
  "series_of m ticker = (case m ticker of None \<Rightarrow> [] | Some s \<Rightarrow> s)"

definition download_of :: "(string \<Rightarrow> series option) \<Rightarrow> string \<Rightarrow> error + (string \<times> string) frame" where
  "download_of m ticker = Inr (yf_frame ticker (series_of m ticker))"

text \<open>
  \<^verbatim>\<open>f"{col}"\<close> of a two-level label is the text of the Python tuple, for names without
  quotes or backslashes: \<^verbatim>\<open>('Open', '^GSPC')\<close>.
\<close>

definition py_quote :: "string \<Rightarrow> string" where
  "py_quote s = CHR 0x27 # s @ [CHR 0x27]"

definition str_label :: "string \<times> string \<Rightarrow> string" where
  "str_label col = ''('' @ py_quote (fst col) @ '', '' @ py_quote (snd col) @ '')''"

definition ohlc :: "string list" where
  "ohlc = [''Open'', ''High'', ''Low'', ''Close'']"

definition rename_columns :: "('l \<Rightarrow> 'm) \<Rightarrow> 'l frame \<Rightarrow> 'm frame" where
  "rename_columns g f = \<lparr>columns = map g (columns f), rows = rows f\<rparr>"

text \<open>
  The loop of the notebook:
  \<^verbatim>\<open>
  all_data = pd.DataFrame()
  for ticker in tickers:
      data = yf.download(ticker, start=start_date, end=end_date)
      data = data[['Open', 'High', 'Low', 'Close']]
      data.columns = [f"{col}_{ticker}" for col in data.columns]
      if all_data.empty:
          all_data = data
      else:
          all_data = all_data.join(data, how="outer")
  \<close>
  Nothing in it catches an exception: the selection of the four fields raises KeyError
  on a table that lacks one of them, and that ends the loop.
\<close>

fun merge_loop :: "(string \<Rightarrow> error + (string \<times> string) frame) \<Rightarrow> string list \<Rightarrow> string frame
    \<Rightarrow> error + string frame" where
  "merge_loop download [] all_data = Inr all_data"
| "merge_loop download (ticker # rest) all_data =
     (case download ticker of
        Inl e \<Rightarrow> Inl e
      | Inr raw \<Rightarrow>
          (case getitem fst ohlc raw of
             Inl e \<Rightarrow> Inl e
           | Inr sel \<Rightarrow>
               (let data = rename_columns (\<lambda>col. str_label col @ ''_'' @ ticker) sel
                in if frame_empty all_data then merge_loop download rest data
                   else (case join_outer all_data data of
                           Inl e \<Rightarrow> Inl e
                         | Inr joined \<Rightarrow> merge_loop download rest joined))))"

definition merge :: "(string \<Rightarrow> error + (string \<times> string) frame) \<Rightarrow> string list \<Rightarrow> error + string frame" where
  "merge download tickers = merge_loop download tickers DataFrame"

text \<open>The name the loop gives to the column of a field and a ticker.\<close>

definition column_name :: "string \<Rightarrow> string \<Rightarrow> string" where
  "column_name field ticker = str_label (field, ticker) @ ''_'' @ ticker"

section \<open>Reading the symbols back\<close>

text \<open>
  The merged table is written to CSV and read back, with the dates as index again; the
  table is taken to pass through unchanged. Then
  \<^verbatim>\<open>tickers = list({col.split("_")[-1] for col in df.columns if col.startswith("(")})\<close>.
\<close>

definition symbol_of_column :: "string \<Rightarrow> string" where
  "symbol_of_column col = last (split_on CHR ''_'' col)"

definition extract_symbols :: "string frame \<Rightarrow> string set" where
  "extract_symbols df = set (map symbol_of_column (filter (\<lambda>col. startswith col ''('') (columns df)))"

section \<open>Projection and rendering\<close>

text \<open>
  What the two renderers print, as values. The chart library is external: \<open>plot\<close> takes
  the table and the ticker and returns \<open>None\<close> when the chart was made, or the message of
  the exception it raised.
\<close>

datatype event =
    GeneratingCharts nat
  | Creating string
  | NoValidSkipping string
  | Saved string
  | FailedChart string string
  | Generating string
  | Insufficient string
  | Shown
  | ErrorPlotting string string
  | NoValid string

datatype projected = EmptyResult | Table "string frame"

definition matching_columns :: "string frame \<Rightarrow> string \<Rightarrow> string list" where
  "matching_columns df ticker = filter (\<lambda>col. endswith col (''_'' @ ticker)) (columns df)"

text \<open>
  The body of the batch loop up to the chart, with the row limit (the literal 500 of the
  notebook) as parameter \<open>n\<close>:
  \<^verbatim>\<open>
  columns = [col for col in df.columns if col.endswith(f"_{ticker}")]
  ticker_data = df[columns]
  ticker_data.columns = ['Open', 'High', 'Low', 'Close']
  ticker_data.dropna(inplace=True)
  if ticker_data.empty: ...; continue
  ticker_data = ticker_data.tail(500)
  \<close>
\<close>

definition project :: "nat \<Rightarrow> string frame \<Rightarrow> string \<Rightarrow> error + projected" where
  "project n df ticker =
     (case getitem id (matching_columns df ticker) df of
        Inl e \<Rightarrow> Inl e
      | Inr sl \<Rightarrow>
          (case set_columns ohlc sl of
             Inl e \<Rightarrow> Inl e
           | Inr named \<Rightarrow>
               (let ticker_data = dropna named
                in if frame_empty ticker_data then Inr EmptyResult
                   else Inr (Table (tail_rows n ticker_data)))))"

definition prepend :: "event list \<Rightarrow> event list \<times> error option \<Rightarrow> event list \<times> error option" where
  "prepend evs res = (evs @ fst res, snd res)"

text \<open>
  The batch renderer returns what it printed and, when an exception left the function,
  that exception. Only the call of the chart library is inside \<^verbatim>\<open>try\<close>.
\<close>

fun charts_loop :: "(string frame \<Rightarrow> string \<Rightarrow> string option) \<Rightarrow> string frame \<Rightarrow> string list
    \<Rightarrow> event list \<times> error option" where
  "charts_loop plot df [] = ([], None)"
| "charts_loop plot df (ticker # rest) =
     (case project 500 df ticker of
        Inl e \<Rightarrow> ([Creating ticker], Some e)
      | Inr EmptyResult \<Rightarrow> prepend [Creating ticker, NoValidSkipping ticker] (charts_loop plot df rest)
      | Inr (Table ticker_data) \<Rightarrow>
          (case plot ticker_data ticker of
             None \<Rightarrow> prepend [Creating ticker, Saved ticker] (charts_loop plot df rest)
           | Some msg \<Rightarrow> prepend [Creating ticker, FailedChart ticker msg] (charts_loop plot df rest)))"

definition generate_candlestick_charts :: "(string frame \<Rightarrow> string \<Rightarrow> string option) \<Rightarrow> string frame
    \<Rightarrow> string list \<Rightarrow> event list \<times> error option" where
  "generate_candlestick_charts plot df tickers =
     prepend [GeneratingCharts (length tickers)] (charts_loop plot df tickers)"

text \<open>
  The handler of the dropdown:
  \<^verbatim>\<open>
  columns = [col for col in df.columns if col.endswith(f"_{selected_ticker}")]
  if len(columns) < 4: print("Insufficient data ..."); return
  ticker_data = df[columns].copy()
  ticker_data.columns = ['Open', 'High', 'Low', 'Close'][:len(columns)]
  ticker_data.dropna(inplace=True)
  if not ticker_data.empty:
      try: mpf.plot(...); plt.show()
      except Exception as e: print("Error plotting chart ...")
  else: print("No valid data available ...")
  \<close>
\<close>

definition update_chart :: "(string frame \<Rightarrow> string \<Rightarrow> string option) \<Rightarrow> string frame \<Rightarrow> string
    \<Rightarrow> event list \<times> error option" where
  "update_chart plot df selected_ticker =
     (let cols = matching_columns df selected_ticker
      in if length cols < 4 then ([Generating selected_ticker, Insufficient selected_ticker], None)
         else (case getitem id cols df of
                 Inl e \<Rightarrow> ([Generating selected_ticker], Some e)
               | Inr sl \<Rightarrow>
                   (case set_columns (take (length cols) ohlc) sl of
                      Inl e \<Rightarrow> ([Generating selected_ticker], Some e)
                    | Inr named \<Rightarrow>
                        (let ticker_data = dropna named
                         in if \<not> frame_empty ticker_data then
                              (case plot ticker_data selected_ticker of
                                 None \<Rightarrow> ([Generating selected_ticker, Shown], None)
                               | Some msg \<Rightarrow> ([Generating selected_ticker,
                                               ErrorPlotting selected_ticker msg], None))
                            else ([Generating selected_ticker, NoValid selected_ticker], None)))))"

section \<open>Notions used to state the properties\<close>

text \<open>
  The download for a mapping that gives every ticker a series, \<open>S t\<close> for ticker \<open>t\<close>;
  the series of a ticker for which the source has no data is empty.
\<close>

definition downloads :: "(string \<Rightarrow> series) \<Rightarrow> string \<Rightarrow> error + (string \<times> string) frame" where
  "downloads S = download_of (\<lambda>t. Some (S t))"

definition dates :: "series \<Rightarrow> date list" where
  "dates s = map fst s"

text \<open>The four columns of a ticker, and the table of one ticker as it enters the join.\<close>

definition enc_cols :: "string \<Rightarrow> string list" where
  "enc_cols ticker = map (\<lambda>f. column_name f ticker) ohlc"

definition data_of :: "string \<Rightarrow> series \<Rightarrow> string frame" where
  "data_of ticker s =
     \<lparr>columns = enc_cols ticker,
      rows = map (\<lambda>(d, b). (d, [Some (bar_open b), Some (bar_high b), Some (bar_low b),
                                 Some (bar_close b)])) s\<rparr>"

text \<open>
  The table of the specification for the symbols \<open>ts\<close>: the four columns of every symbol
  in the order given, one row per date of the union in ascending order, NaN where a
  symbol has no bar for the date.
\<close>

definition spec_wide_table :: "(string \<Rightarrow> series) \<Rightarrow> string list \<Rightarrow> string frame" where
  "spec_wide_table S ts =
     \<lparr>columns = concat (map enc_cols ts),
      rows = map (\<lambda>d. (d, concat (map (\<lambda>t. row_at (data_of t (S t)) d) ts)))
                 (sort (remdups (concat (map (\<lambda>t. dates (S t)) ts))))\<rparr>"

text \<open>
  What the loop builds: the tickers with an empty series that come before the first
  non-empty one are overwritten, since \<^verbatim>\<open>all_data.empty\<close> still holds after them.
\<close>

definition merged_table :: "(string \<Rightarrow> series) \<Rightarrow> string list \<Rightarrow> string frame" where
  "merged_table S ts =
     (case dropWhile (\<lambda>t. S t = []) ts of
        [] \<Rightarrow> (if ts = [] then DataFrame else data_of (last ts) [])
      | t # rest \<Rightarrow> spec_wide_table S (t # rest))"

text \<open>
  The scenario of the specification: \<open>AAA\<close> on the dates 1 to 3 with every field 10,
  \<open>BBB\<close> on the dates 2 to 4 with every field 20; every other ticker has no data.
  \<open>ex_failing\<close> is the same mapping without \<open>BBB\<close>, whose fetch failed.
\<close>

definition ex_bar :: "real \<Rightarrow> bar" where
  "ex_bar v = \<lparr>bar_open = v, bar_high = v, bar_low = v, bar_close = v, bar_volume = v\<rparr>"

definition ex_series :: "string \<Rightarrow> series" where
  "ex_series t =
     (if t = ''AAA'' then [(1, ex_bar 10), (2, ex_bar 10), (3, ex_bar 10)]
      else if t = ''BBB'' then [(2, ex_bar 20), (3, ex_bar 20), (4, ex_bar 20)]
      else [])"


text \<open>
  The number of NaN cells of a table; the dates of all the series; and the count of the
  specification: 4 for every symbol and every date of the union that the symbol does not
  cover.
\<close>

definition missing_count :: "'l frame \<Rightarrow> nat" where
  "missing_count f = sum_list (map (\<lambda>(d, r). length (filter (\<lambda>v. v = None) r)) (rows f))"

definition all_dates :: "(string \<Rightarrow> series) \<Rightarrow> string list \<Rightarrow> date set" where
  "all_dates S ts = (\<Union>t \<in> set ts. set (dates (S t)))"

definition spec_missing_count :: "(string \<Rightarrow> series) \<Rightarrow> string list \<Rightarrow> nat" where
  "spec_missing_count S ts = (\<Sum>t\<leftarrow>ts. 4 * card (all_dates S ts - set (dates (S t))))"

text \<open>
  The cell of a table at a date and a column name: \<open>None\<close> when the table has no such
  row or column, \<open>Some None\<close> for NaN.
\<close>

definition cell_at :: "'l frame \<Rightarrow> date \<Rightarrow> 'l \<Rightarrow> cell option" where
  "cell_at f d c = (case map_of (rows f) d of None \<Rightarrow> None
                    | Some r \<Rightarrow> map_of (zip (columns f) r) c)"

text \<open>
  The rows of a table restricted to the columns of a symbol; and the rows that are
  complete for the symbol, those with a value in each of its columns.
\<close>

definition selected_rows :: "string frame \<Rightarrow> string \<Rightarrow> (date \<times> cell list) list" where
  "selected_rows df ticker =
     map (\<lambda>(d, r). (d, map snd (filter (\<lambda>(c, v). endswith c (''_'' @ ticker)) (zip (columns df) r))))
         (rows df)"

definition complete_for :: "string frame \<Rightarrow> string \<Rightarrow> date \<times> cell list \<Rightarrow> bool" where
  "complete_for df ticker row =
     list_all (\<lambda>(c, v). endswith c (''_'' @ ticker) \<longrightarrow> v \<noteq> None) (zip (columns df) (snd row))"

definition complete_dates :: "string frame \<Rightarrow> string \<Rightarrow> date list" where
  "complete_dates df ticker = map fst (filter (complete_for df ticker) (rows df))"

text \<open>
  Example tables. \<open>ex_table\<close> is the merged table of the scenario; \<open>ex_nodata\<close> is the
  merged table of \<open>AAA\<close> and of \<open>CCC\<close>, for which the download found nothing;
  \<open>ex_partial\<close> is a table in which the symbol \<open>DDD\<close> has three columns; \<open>ex_aaa\<close> is
  the projection of \<open>ex_table\<close> on \<open>AAA\<close>. The renderer \<open>ex_plot\<close> fails for \<open>AAA\<close>.
\<close>

definition ex_table :: "string frame" where
  "ex_table =
     \<lparr>columns = enc_cols ''AAA'' @ enc_cols ''BBB'',
      rows = [(1, [Some 10, Some 10, Some 10, Some 10, None, None, None, None]),
              (2, [Some 10, Some 10, Some 10, Some 10, Some 20, Some 20, Some 20, Some 20]),
              (3, [Some 10, Some 10, Some 10, Some 10, Some 20, Some 20, Some 20, Some 20]),
              (4, [None, None, None, None, Some 20, Some 20, Some 20, Some 20])]\<rparr>"

definition ex_nodata :: "string frame" where
  "ex_nodata =
     \<lparr>columns = enc_cols ''AAA'' @ enc_cols ''CCC'',
      rows = [(1, [Some 10, Some 10, Some 10, Some 10, None, None, None, None]),
              (2, [Some 10, Some 10, Some 10, Some 10, None, None, None, None]),
              (3, [Some 10, Some 10, Some 10, Some 10, None, None, None, None])]\<rparr>"

definition ex_partial :: "string frame" where
  "ex_partial =
     \<lparr>columns = [column_name ''Open'' ''DDD'', column_name ''High'' ''DDD'', column_name ''Low'' ''DDD'']
                 @ enc_cols ''AAA'',
      rows = [(1, [Some 5, Some 6, Some 4, Some 10, Some 10, Some 10, Some 10])]\<rparr>"


text \<open>
  Two symbols of which one ends in the separator and the other: \<open>B\<close> and \<open>BRK_B\<close>, each
  with a bar on the dates 1 and 2, and their merged table \<open>ex_suffix\<close>.
\<close>

definition ex_suffix_series :: "string \<Rightarrow> series" where
  "ex_suffix_series t =
     (if t = ''B'' then [(1, ex_bar 1), (2, ex_bar 1)]
      else if t = ''BRK_B'' then [(1, ex_bar 2), (2, ex_bar 2)]
      else [])"

definition ex_suffix :: "string frame" where
  "ex_suffix =
     \<lparr>columns = enc_cols ''B'' @ enc_cols ''BRK_B'',
      rows = [(1, [Some 1, Some 1, Some 1, Some 1, Some 2, Some 2, Some 2, Some 2]),
              (2, [Some 1, Some 1, Some 1, Some 1, Some 2, Some 2, Some 2, Some 2])]\<rparr>"

definition ex_plot :: "string frame \<Rightarrow> string \<Rightarrow> string option" where
  "ex_plot ticker_data ticker = (if ticker = ''AAA'' then Some ''bad data'' else None)"

section \<open>Projection on a store of tables\<close>

text \<open>
  To state that a projection leaves the table it reads untouched, the tables live in a
  store, addressed by references, and the two projections are written once more as the
  notebook has them, step by step on the store. \<^verbatim>\<open>df[columns]\<close>, \<^verbatim>\<open>.copy()\<close> and
  \<^verbatim>\<open>.tail(500)\<close> allocate a new table; \<^verbatim>\<open>ticker_data.columns = ...\<close> and
  \<^verbatim>\<open>ticker_data.dropna(inplace=True)\<close> overwrite the table that \<^verbatim>\<open>ticker_data\<close> refers
  to. That \<^verbatim>\<open>df[columns]\<close> is a copy is what the warning in the recorded output of the
  notebook says (\<^verbatim>\<open>A value is trying to be set on a copy of a slice from a DataFrame\<close>).
  The result is the reference of the table handed to the renderer, if any.
\<close>

record store =
  objs :: "nat \<Rightarrow> string frame option"
  next_ref :: nat

definition new_obj :: "string frame \<Rightarrow> store \<Rightarrow> nat \<times> store" where
  "new_obj f st = (next_ref st, \<lparr>objs = (objs st)(next_ref st \<mapsto> f), next_ref = Suc (next_ref st)\<rparr>)"

definition put_obj :: "nat \<Rightarrow> string frame \<Rightarrow> store \<Rightarrow> store" where
  "put_obj a f st = st\<lparr>objs := (objs st)(a \<mapsto> f)\<rparr>"

definition project_in_store :: "nat \<Rightarrow> nat \<Rightarrow> string \<Rightarrow> store \<Rightarrow> (error + nat option) \<times> store" where
  "project_in_store n df_ref ticker st =
     (case objs st df_ref of
        None \<Rightarrow> (Inl NameError, st)
      | Some df \<Rightarrow>
          (case getitem id (matching_columns df ticker) df of
             Inl e \<Rightarrow> (Inl e, st)
           | Inr sl \<Rightarrow>
               (let (a, st1) = new_obj sl st
                in case set_columns ohlc sl of
                     Inl e \<Rightarrow> (Inl e, st1)
                   | Inr named \<Rightarrow>
                       (let st2 = put_obj a named st1;
                            st3 = put_obj a (dropna named) st2
                        in if frame_empty (dropna named) then (Inr None, st3)
                           else (let (b, st4) = new_obj (tail_rows n (dropna named)) st3
                                 in (Inr (Some b), st4))))))"

definition update_chart_in_store :: "nat \<Rightarrow> string \<Rightarrow> store \<Rightarrow> (error + nat option) \<times> store" where
  "update_chart_in_store df_ref selected_ticker st =
     (case objs st df_ref of
        None \<Rightarrow> (Inl NameError, st)
      | Some df \<Rightarrow>
          (let cols = matching_columns df selected_ticker
           in if length cols < 4 then (Inr None, st)
              else (case getitem id cols df of
                      Inl e \<Rightarrow> (Inl e, st)
                    | Inr sl \<Rightarrow>
                        (let (a, st1) = new_obj sl st;
                             (b, st2) = new_obj sl st1
                         in case set_columns (take (length cols) ohlc) sl of
                              Inl e \<Rightarrow> (Inl e, st2)
                            | Inr named \<Rightarrow>
                                (let st3 = put_obj b named st2;
                                     st4 = put_obj b (dropna named) st3
                                 in if frame_empty (dropna named) then (Inr None, st4)
                                    else (Inr (Some b), st4))))))"

definition ex_store :: store where
  "ex_store = \<lparr>objs = (\<lambda>a. if a = 0 then Some ex_table else None), next_ref = 1\<rparr>"

section \<open>The symbol extractor on encoded names\<close>

lemma split_on_not_Nil: "split_on c s \<noteq> []"
  by (induction s) (auto split: list.splits)

lemma split_on_notin: "c \<notin> set s \<Longrightarrow> split_on c s = [s]"
  by (induction s) auto

lemma split_on_length: "length (split_on c s) = Suc (length (filter (\<lambda>x. x = c) s))"
  by (induction s) (auto split: list.splits)

lemma last_split_on_Cons:
  "last (split_on c (x # s)) = (if x = c \<or> c \<in> set s then last (split_on c s) else x # s)"
proof (cases "x = c")
  case True
  then show ?thesis by (simp add: split_on_not_Nil)
next
  case False
  show ?thesis
  proof (cases "c \<in> set s")
    case True
    then have "filter (\<lambda>x. x = c) s \<noteq> []" by (simp add: filter_empty_conv)
    then have "2 \<le> length (split_on c s)" unfolding split_on_length
      by (cases "filter (\<lambda>x. x = c) s") auto
    then obtain w v ws where "split_on c s = w # v # ws"
      by (cases "split_on c s"; cases "tl (split_on c s)") auto
    then show ?thesis using True False by simp
  next
    case notin: False
    then show ?thesis using False by (simp add: split_on_notin)
  qed
qed

lemma last_split_on_append:
  "last (split_on c (a @ c # s)) = last (split_on c s)"
proof (induction a)
  case Nil
  show ?case by (simp add: split_on_not_Nil)
next
  case (Cons x a)
  show ?case unfolding append_Cons last_split_on_Cons using Cons by simp
qed

lemma last_split_on_takeWhile:
  "last (split_on c s) = rev (takeWhile (\<lambda>x. x \<noteq> c) (rev s))"
proof (induction s)
  case Nil
  show ?case by simp
next
  case (Cons x s)
  show ?case
  proof (cases "c \<in> set s")
    case True
    then show ?thesis unfolding last_split_on_Cons using Cons by (simp add: takeWhile_append1)
  next
    case False
    then have "takeWhile (\<lambda>x. x \<noteq> c) (rev s @ [x]) = rev s @ takeWhile (\<lambda>x. x \<noteq> c) [x]"
      by (intro takeWhile_append2) auto
    then show ?thesis unfolding last_split_on_Cons using False Cons
      by (simp add: split_on_notin)
  qed
qed

lemma symbol_of_column_name:
  "symbol_of_column (column_name field ticker) = last (split_on CHR ''_'' ticker)"
proof -
  have "column_name field ticker = str_label (field, ticker) @ CHR ''_'' # ticker"
    by (simp add: column_name_def)
  then show ?thesis by (simp only: symbol_of_column_def last_split_on_append)
qed

lemma symbol_of_column_plain:
  "CHR ''_'' \<notin> set ticker \<Longrightarrow> symbol_of_column (column_name field ticker) = ticker"
  by (simp add: symbol_of_column_name split_on_notin)

text \<open>
  C1, as the code has it. For a symbol that contains the separator, the extractor returns
  what follows the last separator of the column name: the part of the symbol after its
  own last separator, which is never the whole symbol.
\<close>

theorem symbol_of_column_last_segment:
  "CHR ''_'' \<in> set ticker \<Longrightarrow>
     symbol_of_column (column_name field ticker) = rev (takeWhile (\<lambda>x. x \<noteq> CHR ''_'') (rev ticker))
   \<and> symbol_of_column (column_name field ticker) \<noteq> ticker"
proof -
  assume sep: "CHR ''_'' \<in> set ticker"
  have eq: "symbol_of_column (column_name field ticker)
              = rev (takeWhile (\<lambda>x. x \<noteq> CHR ''_'') (rev ticker))"
    by (simp only: symbol_of_column_name last_split_on_takeWhile)
  have "CHR ''_'' \<notin> set (takeWhile (\<lambda>x. x \<noteq> CHR ''_'') (rev ticker))"
    by (auto dest: set_takeWhileD)
  then have "rev (takeWhile (\<lambda>x. x \<noteq> CHR ''_'') (rev ticker)) \<noteq> ticker"
    using sep by (metis set_rev)
  then show ?thesis using eq by simp
qed

theorem symbol_of_column_last_segment_witness:
  "CHR ''_'' \<in> set ''BRK_B'' \<and> symbol_of_column (column_name ''Open'' ''BRK_B'') = ''B''"
  using symbol_of_column_last_segment [of "''BRK_B''" "''Open''"] by simp

text \<open>
  C1 as the specification states it fails: for the symbol \<open>BRK_B\<close> the extractor returns
  \<open>B\<close>, which is neither the symbol nor what follows the first separator of the name.
\<close>

theorem symbol_first_split_counterexample:
  "CHR ''_'' \<in> set ''BRK_B''
   \<and> symbol_of_column (column_name ''Open'' ''BRK_B'') = ''B''
   \<and> symbol_of_column (column_name ''Open'' ''BRK_B'') \<noteq> ''BRK_B''
   \<and> symbol_of_column (column_name ''Open'' ''BRK_B'')
       \<noteq> spec_after_first_sep (column_name ''Open'' ''BRK_B'')"
  by (simp add: symbol_of_column_def column_name_def str_label_def py_quote_def
      spec_after_first_sep_def)

section \<open>The merged table\<close>

lemma getitem_yf_frame:
  "getitem fst ohlc (yf_frame t s) =
     Inr \<lparr>columns = map (\<lambda>f. (f, t)) ohlc,
          rows = map (\<lambda>(d, b). (d, [Some (bar_open b), Some (bar_high b), Some (bar_low b),
                                 Some (bar_close b)])) s\<rparr>"
  by (simp add: getitem_def yf_frame_def ohlc_def image_iff case_prod_unfold)

lemma fetch_select_rename:
  "getitem fst ohlc (yf_frame t s) = Inr sel \<Longrightarrow>
     rename_columns (\<lambda>col. str_label col @ ''_'' @ t) sel = data_of t s"
  unfolding getitem_yf_frame
  by (auto simp: rename_columns_def data_of_def enc_cols_def column_name_def ohlc_def)

lemma downloads_apply: "downloads S t = Inr (yf_frame t (S t))"
  by (simp add: downloads_def download_of_def series_of_def)


lemma merge_loop_step:
  "merge_loop (downloads S) (t # ts) all_data =
     (if frame_empty all_data then merge_loop (downloads S) ts (data_of t (S t))
      else (case join_outer all_data (data_of t (S t)) of Inl e \<Rightarrow> Inl e
            | Inr joined \<Rightarrow> merge_loop (downloads S) ts joined))"
  using fetch_select_rename [of t "S t"]
  by (simp add: downloads_apply getitem_yf_frame Let_def)

lemma column_name_inj:
  assumes "f \<in> set ohlc" "g \<in> set ohlc" "column_name f t = column_name g u"
  shows "f = g \<and> t = u"
proof -
  have fg: "f = g" using assms
    by (auto simp: ohlc_def column_name_def str_label_def py_quote_def)
  then have "t @ CHR 0x27 # '')_'' @ t = u @ CHR 0x27 # '')_'' @ u"
    using assms(3) by (simp add: column_name_def str_label_def py_quote_def)
  moreover from this have "length (t @ CHR 0x27 # '')_'' @ t) = length (u @ CHR 0x27 # '')_'' @ u)"
    by (rule arg_cong)
  then have "length t = length u" by simp
  ultimately show ?thesis using fg by simp
qed

lemma enc_cols_disjoint: "t \<noteq> u \<Longrightarrow> c \<in> set (enc_cols t) \<Longrightarrow> c \<notin> set (enc_cols u)"
  by (auto simp: enc_cols_def dest: column_name_inj)

lemma length_enc_cols: "length (enc_cols t) = 4"
  by (simp add: enc_cols_def ohlc_def)

lemma map_of_graph: "map_of (map (\<lambda>d. (d, g d)) xs) d = (if d \<in> set xs then Some (g d) else None)"
  by (induction xs) auto

lemma sort_remdups_cong: "set xs = set ys \<Longrightarrow> sort (remdups xs) = sort (remdups ys)"
  by (simp add: sorted_list_of_set_sort_remdups [symmetric])

lemma set_sort_remdups: "set (sort (remdups xs)) = set xs"
  by simp

lemma row_at_data_of_absent:
  "d \<notin> set (dates s) \<Longrightarrow> row_at (data_of t s) d = replicate 4 None"
proof -
  assume "d \<notin> set (dates s)"
  then have "map_of (rows (data_of t s)) d = None"
    by (force simp: data_of_def dates_def map_of_eq_None_iff image_iff case_prod_unfold)
  then show ?thesis by (simp add: row_at_def data_of_def length_enc_cols)
qed

lemma index_wide: "index (spec_wide_table S ts) = sort (remdups (concat (map (\<lambda>t. dates (S t)) ts)))"
  by (simp add: index_def spec_wide_table_def comp_def)

lemma columns_wide: "columns (spec_wide_table S ts) = concat (map enc_cols ts)"
  by (simp add: spec_wide_table_def)

lemma concat_absent:
  "\<forall>t \<in> set ts. d \<notin> set (dates (S t)) \<Longrightarrow>
     concat (map (\<lambda>t. row_at (data_of t (S t)) d) ts) = replicate (length (concat (map enc_cols ts))) None"
  by (induction ts) (auto simp: row_at_data_of_absent length_enc_cols replicate_add [symmetric]
      simp del: replicate_add)

lemma row_at_wide:
  "row_at (spec_wide_table S ts) d = concat (map (\<lambda>t. row_at (data_of t (S t)) d) ts)"
proof (cases "d \<in> set (concat (map (\<lambda>t. dates (S t)) ts))")
  case True
  then show ?thesis by (simp add: row_at_def spec_wide_table_def map_of_graph)
next
  case False
  then have "\<forall>t \<in> set ts. d \<notin> set (dates (S t))" by auto
  from concat_absent [OF this] False show ?thesis
    by (simp add: row_at_def spec_wide_table_def map_of_graph)
qed

lemma join_wide:
  assumes "t \<notin> set us"
  shows "join_outer (spec_wide_table S us) (data_of t (S t)) = Inr (spec_wide_table S (us @ [t]))"
proof -
  have disj: "\<not> (\<exists>c \<in> set (columns (spec_wide_table S us)). c \<in> set (columns (data_of t (S t))))"
    using assms enc_cols_disjoint [of _ t] by (fastforce simp: columns_wide data_of_def)
  have idx: "sort (remdups (index (spec_wide_table S us) @ index (data_of t (S t))))
               = sort (remdups (concat (map (\<lambda>t. dates (S t)) (us @ [t]))))"
    by (rule sort_remdups_cong) (simp add: index_wide, simp add: index_def data_of_def dates_def comp_def case_prod_unfold)
  show ?thesis
    unfolding join_outer_def using disj
    by (simp only: if_False idx row_at_wide) (simp add: spec_wide_table_def data_of_def)
qed

lemma frame_empty_wide:
  "frame_empty (spec_wide_table S us) = (us = [] \<or> (\<forall>t \<in> set us. S t = []))"
proof -
  have c: "columns (spec_wide_table S us) = [] \<longleftrightarrow> us = []"
    by (cases us) (auto simp: columns_wide enc_cols_def ohlc_def)
  have "rows (spec_wide_table S us) = [] \<longleftrightarrow> index (spec_wide_table S us) = []"
    by (simp add: index_def)
  also have "\<dots> \<longleftrightarrow> set (index (spec_wide_table S us)) = {}" by simp
  also have "\<dots> \<longleftrightarrow> (\<forall>t \<in> set us. S t = [])"
    unfolding index_wide set_sort_remdups by (auto simp: dates_def)
  finally show ?thesis using c by (auto simp: frame_empty_def)
qed

lemma rows_from_keys:
  assumes "distinct (map fst xs)"
  shows "map (\<lambda>d. (d, the (map_of xs d))) (map fst xs) = xs"
proof -
  have "map (\<lambda>x. (fst x, the (map_of xs (fst x)))) xs = map (\<lambda>x. x) xs"
  proof (intro map_cong refl)
    fix x assume "x \<in> set xs"
    then have "map_of xs (fst x) = Some (snd x)"
      using assms map_of_is_SomeI [of xs "fst x" "snd x"] by simp
    then show "(fst x, the (map_of xs (fst x))) = x" by (cases x) simp
  qed
  then show ?thesis by (simp add: comp_def)
qed

lemma wide_single:
  assumes "sorted_wrt (<) (dates (S t))"
  shows "spec_wide_table S [t] = data_of t (S t)"
proof -
  have sd: "sorted (dates (S t))" "distinct (dates (S t))"
    using assms by (simp_all add: strict_sorted_iff)
  then have idx: "sort (remdups (dates (S t))) = dates (S t)"
    by (simp add: sorted_sort_id)
  have keys: "map fst (rows (data_of t (S t))) = dates (S t)"
    by (simp add: data_of_def dates_def comp_def case_prod_unfold)
  have "map (\<lambda>d. (d, row_at (data_of t (S t)) d)) (dates (S t))
          = map (\<lambda>d. (d, the (map_of (rows (data_of t (S t))) d))) (map fst (rows (data_of t (S t))))"
    unfolding keys
  proof (intro map_cong refl)
    fix d assume "d \<in> set (dates (S t))"
    then have "d \<in> fst ` set (rows (data_of t (S t)))" using keys by (metis set_map)
    then obtain r where "map_of (rows (data_of t (S t))) d = Some r"
      by (metis map_of_eq_None_iff not_Some_eq)
    then show "(d, row_at (data_of t (S t)) d) = (d, the (map_of (rows (data_of t (S t))) d))"
      by (simp add: row_at_def)
  qed
  also have "\<dots> = rows (data_of t (S t))"
    using sd(2) keys by (intro rows_from_keys) simp
  finally show ?thesis by (simp add: spec_wide_table_def idx) (simp add: data_of_def)
qed

lemma merge_loop_wide:
  "\<not> frame_empty (spec_wide_table S us) \<Longrightarrow> distinct (us @ ts) \<Longrightarrow>
     merge_loop (downloads S) ts (spec_wide_table S us)
       = Inr (spec_wide_table S (us @ ts))"
proof (induction ts arbitrary: us)
  case Nil
  show ?case by simp
next
  case (Cons t ts)
  have notin: "t \<notin> set us" using Cons.prems(2) by auto
  have ne: "\<not> frame_empty (spec_wide_table S (us @ [t]))"
    using Cons.prems(1) by (auto simp: frame_empty_wide)
  have "distinct ((us @ [t]) @ ts)" using Cons.prems(2) by simp
  from Cons.IH [OF ne this] show ?case
    using Cons.prems(1) by (simp only: merge_loop_step join_wide [OF notin]) simp
qed

lemma merge_loop_from_empty:
  "rows all_data = [] \<Longrightarrow> distinct ts \<Longrightarrow> \<forall>t \<in> set ts. sorted_wrt (<) (dates (S t)) \<Longrightarrow>
     merge_loop (downloads S) ts all_data
       = Inr (case dropWhile (\<lambda>t. S t = []) ts of
                [] \<Rightarrow> (if ts = [] then all_data else data_of (last ts) [])
              | t # rest \<Rightarrow> spec_wide_table S (t # rest))"
proof (induction ts arbitrary: all_data)
  case Nil
  show ?case by simp
next
  case (Cons t ts)
  have em: "frame_empty all_data" using Cons.prems(1) by (simp add: frame_empty_def)
  show ?case
  proof (cases "S t = []")
    case True
    have "rows (data_of t (S t)) = []" using True by (simp add: data_of_def)
    from Cons.IH [OF this] Cons.prems(2,3)
    have "merge_loop (downloads S) ts (data_of t (S t))
            = Inr (case dropWhile (\<lambda>t. S t = []) ts of
                     [] \<Rightarrow> (if ts = [] then data_of t (S t) else data_of (last ts) [])
                   | t # rest \<Rightarrow> spec_wide_table S (t # rest))"
      by simp
    then have ih: "merge_loop (downloads S) (t # ts) all_data
            = Inr (case dropWhile (\<lambda>t. S t = []) ts of
                     [] \<Rightarrow> (if ts = [] then data_of t (S t) else data_of (last ts) [])
                   | t # rest \<Rightarrow> spec_wide_table S (t # rest))"
      using em by (simp only: merge_loop_step if_True)
    have dw: "dropWhile (\<lambda>t. S t = []) (t # ts) = dropWhile (\<lambda>t. S t = []) ts"
      using True by simp
    show ?thesis
    proof (cases "dropWhile (\<lambda>t. S t = []) ts")
      case Nil
      then show ?thesis unfolding ih dw using True by (simp del: dropWhile_eq_Nil_conv)
    next
      case (Cons u rest)
      then show ?thesis unfolding ih dw by simp
    qed
  next
    case False
    have w: "data_of t (S t) = spec_wide_table S [t]"
      using Cons.prems(3) by (simp add: wide_single)
    have ne: "\<not> frame_empty (spec_wide_table S [t])" using False by (simp add: frame_empty_wide)
    have "distinct ([t] @ ts)" using Cons.prems(2) by simp
    from merge_loop_wide [OF ne this] show ?thesis
      using em False by (simp only: merge_loop_step w) simp
  qed
qed

lemma merge_merged_table:
  "distinct ts \<Longrightarrow> \<forall>t \<in> set ts. sorted_wrt (<) (dates (S t)) \<Longrightarrow>
     merge (downloads S) ts = Inr (merged_table S ts)"
  unfolding merge_def merged_table_def
  by (rule merge_loop_from_empty) (simp_all add: DataFrame_def)

lemma merge_loop_joined:
  "\<not> frame_empty all_data \<Longrightarrow> distinct ts \<Longrightarrow>
   \<forall>t \<in> set ts. \<forall>c \<in> set (enc_cols t). c \<notin> set (columns all_data) \<Longrightarrow>
     \<exists>f. merge_loop (downloads S) ts all_data = Inr f
        \<and> columns f = columns all_data @ concat (map enc_cols ts)
        \<and> set (index f) = set (index all_data) \<union> (\<Union>t \<in> set ts. set (dates (S t)))"
proof (induction ts arbitrary: all_data)
  case Nil
  show ?case by simp
next
  case (Cons t ts)
  define j :: "string frame" where
    "j = \<lparr>columns = columns all_data @ enc_cols t,
          rows = map (\<lambda>d. (d, row_at all_data d @ row_at (data_of t (S t)) d))
                     (sort (remdups (index all_data @ dates (S t))))\<rparr>"
  have jn: "join_outer all_data (data_of t (S t)) = Inr j"
    using Cons.prems(3)
    by (auto simp: join_outer_def j_def data_of_def index_def dates_def comp_def case_prod_unfold)
  have idx: "set (index j) = set (index all_data) \<union> set (dates (S t))"
    by (simp add: j_def index_def comp_def)
  have "index all_data \<noteq> []" using Cons.prems(1) by (simp add: frame_empty_def index_def)
  then have "set (index j) \<noteq> {}" unfolding idx by simp
  then have "index j \<noteq> []" by auto
  then have "rows j \<noteq> []" by (auto simp: index_def)
  then have ne: "\<not> frame_empty j"
    using Cons.prems(1) by (simp add: frame_empty_def j_def)
  have d: "distinct ts" using Cons.prems(2) by simp
  have disj: "\<forall>u \<in> set ts. \<forall>c \<in> set (enc_cols u). c \<notin> set (columns j)"
  proof (intro ballI)
    fix u c assume u: "u \<in> set ts" and c: "c \<in> set (enc_cols u)"
    then have "u \<noteq> t" using Cons.prems(2) by auto
    then have "c \<notin> set (enc_cols t)" using c by (rule enc_cols_disjoint)
    moreover have "c \<notin> set (columns all_data)" using Cons.prems(3) u c by simp
    ultimately show "c \<notin> set (columns j)" by (simp add: j_def)
  qed
  from Cons.IH [OF ne d disj] obtain f where
    f: "merge_loop (downloads S) ts j = Inr f"
       "columns f = columns j @ concat (map enc_cols ts)"
       "set (index f) = set (index j) \<union> (\<Union>t \<in> set ts. set (dates (S t)))"
    by blast
  have "merge_loop (downloads S) (t # ts) all_data = Inr f"
    using Cons.prems(1) f(1) by (simp only: merge_loop_step jn) simp
  moreover have "columns f = columns all_data @ concat (map enc_cols (t # ts))"
    using f(2) by (simp add: j_def)
  moreover have "set (index f) = set (index all_data) \<union> (\<Union>t \<in> set (t # ts). set (dates (S t)))"
    using f(3) idx by auto
  ultimately show ?case by blast
qed

lemma merge_loop_started:
  "rows all_data = [] \<Longrightarrow> distinct ts \<Longrightarrow>
     \<exists>f. merge_loop (downloads S) ts all_data = Inr f
        \<and> columns f = (if ts = [] then columns all_data
                        else if dropWhile (\<lambda>t. S t = []) ts = [] then enc_cols (last ts)
                        else concat (map enc_cols (dropWhile (\<lambda>t. S t = []) ts)))
        \<and> set (index f) = (\<Union>t \<in> set ts. set (dates (S t)))"
proof (induction ts arbitrary: all_data)
  case Nil
  then show ?case by (simp add: index_def)
next
  case (Cons t ts)
  have em: "frame_empty all_data" using Cons.prems(1) by (simp add: frame_empty_def)
  have step: "merge_loop (downloads S) (t # ts) all_data
                = merge_loop (downloads S) ts (data_of t (S t))"
    using em by (simp only: merge_loop_step if_True)
  show ?case
  proof (cases "S t = []")
    case True
    have r0: "rows (data_of t (S t)) = []" using True by (simp add: data_of_def)
    have d: "distinct ts" using Cons.prems(2) by simp
    from Cons.IH [OF r0 d] obtain f where
      f: "merge_loop (downloads S) ts (data_of t (S t)) = Inr f"
         "columns f = (if ts = [] then columns (data_of t (S t))
                        else if dropWhile (\<lambda>t. S t = []) ts = [] then enc_cols (last ts)
                        else concat (map enc_cols (dropWhile (\<lambda>t. S t = []) ts)))"
         "set (index f) = (\<Union>t \<in> set ts. set (dates (S t)))"
      by blast
    have "columns f = (if dropWhile (\<lambda>t. S t = []) (t # ts) = [] then enc_cols (last (t # ts))
                        else concat (map enc_cols (dropWhile (\<lambda>t. S t = []) (t # ts))))"
      using f(2) True by (simp add: data_of_def del: dropWhile_eq_Nil_conv)
    moreover have "set (index f) = (\<Union>t \<in> set (t # ts). set (dates (S t)))"
      using f(3) True by (simp add: dates_def)
    ultimately show ?thesis using f(1) step by simp
  next
    case False
    have ne: "\<not> frame_empty (data_of t (S t))"
      using False by (simp add: frame_empty_def data_of_def enc_cols_def ohlc_def)
    have d: "distinct ts" using Cons.prems(2) by simp
    have disj: "\<forall>u \<in> set ts. \<forall>c \<in> set (enc_cols u). c \<notin> set (columns (data_of t (S t)))"
    proof (intro ballI)
      fix u c assume u: "u \<in> set ts" and c: "c \<in> set (enc_cols u)"
      then have "u \<noteq> t" using Cons.prems(2) by auto
      then have "c \<notin> set (enc_cols t)" using c by (rule enc_cols_disjoint)
      then show "c \<notin> set (columns (data_of t (S t)))" by (simp add: data_of_def)
    qed
    from merge_loop_joined [OF ne d disj, of S] obtain f where
      f: "merge_loop (downloads S) ts (data_of t (S t)) = Inr f"
         "columns f = columns (data_of t (S t)) @ concat (map enc_cols ts)"
         "set (index f) = set (index (data_of t (S t))) \<union> (\<Union>t \<in> set ts. set (dates (S t)))"
      by blast
    have "columns f = concat (map enc_cols (dropWhile (\<lambda>t. S t = []) (t # ts)))"
      using f(2) False by (simp add: data_of_def)
    moreover have "set (index f) = (\<Union>t \<in> set (t # ts). set (dates (S t)))"
      using f(3) by (simp add: index_def data_of_def dates_def comp_def case_prod_unfold)
    ultimately show ?thesis using f(1) step False by simp
  qed
qed

lemma extract_symbols_enc:
  assumes "\<forall>t \<in> set ts. CHR ''_'' \<notin> set t"
  shows "set (map symbol_of_column (filter (\<lambda>col. startswith col ''('') (concat (map enc_cols ts)))) = set ts"
proof -
  have st: "\<And>f t. startswith (column_name f t) ''(''"
    by (simp add: startswith_def column_name_def str_label_def)
  have "filter (\<lambda>col. startswith col ''('') (concat (map enc_cols ts)) = concat (map enc_cols ts)"
    by (rule filter_True) (auto simp: enc_cols_def st)
  moreover have "set (map symbol_of_column (concat (map enc_cols ts))) = set ts"
    using assms by (auto simp: enc_cols_def ohlc_def symbol_of_column_plain image_iff)
  ultimately show ?thesis by simp
qed

lemma dropWhile_hd_keep: "ts \<noteq> [] \<Longrightarrow> \<not> P (hd ts) \<Longrightarrow> dropWhile P ts = ts"
  by (cases ts) auto

text \<open>
  C2. For distinct symbols without the separator in their names, each with a non-empty
  series, the symbols read back from the merged table are exactly the symbols merged.
\<close>

theorem extract_symbols_merge:
  assumes "distinct ts" and "\<forall>t \<in> set ts. S t \<noteq> [] \<and> CHR ''_'' \<notin> set t"
  shows "\<exists>f. merge (downloads S) ts = Inr f \<and> extract_symbols f = set ts"
proof -
  have "rows (DataFrame :: string frame) = []" by (simp add: DataFrame_def)
  from merge_loop_started [OF this assms(1), of S] obtain f where
    f: "merge (downloads S) ts = Inr f"
       "columns f = (if ts = [] then columns (DataFrame :: string frame)
                     else if dropWhile (\<lambda>t. S t = []) ts = [] then enc_cols (last ts)
                     else concat (map enc_cols (dropWhile (\<lambda>t. S t = []) ts)))"
    unfolding merge_def by blast
  have "columns f = concat (map enc_cols ts)"
  proof (cases "ts = []")
    case True
    then show ?thesis using f(2) by (simp add: DataFrame_def)
  next
    case False
    then have "dropWhile (\<lambda>t. S t = []) ts = ts"
      using assms(2) by (intro dropWhile_hd_keep) auto
    then show ?thesis using f(2) False by simp
  qed
  then have "extract_symbols f = set ts"
    using assms(2) extract_symbols_enc [of ts] by (simp add: extract_symbols_def)
  then show ?thesis using f(1) by blast
qed

theorem extract_symbols_merge_witness:
  "distinct [''AAA'', ''BBB'']
   \<and> ex_series ''AAA'' \<noteq> [] \<and> CHR ''_'' \<notin> set ''AAA''
   \<and> ex_series ''BBB'' \<noteq> [] \<and> CHR ''_'' \<notin> set ''BBB''
   \<and> (\<exists>f. merge (downloads ex_series) [''AAA'', ''BBB''] = Inr f
          \<and> extract_symbols f = {''AAA'', ''BBB''})"
  using extract_symbols_merge [of "[''AAA'', ''BBB'']" ex_series]
  by (simp add: ex_series_def)



section \<open>Rows, missing values and the order of the symbols\<close>

lemma none_count_row:
  "length (filter (\<lambda>v. v = None) (row_at (data_of t s) d)) = (if d \<in> set (dates s) then 0 else 4)"
proof (cases "d \<in> set (dates s)")
  case False
  then show ?thesis by (simp add: row_at_data_of_absent)
next
  case True
  then have "d \<in> fst ` set (rows (data_of t s))"
    by (force simp: data_of_def dates_def image_iff case_prod_unfold)
  then obtain r where r: "map_of (rows (data_of t s)) d = Some r"
    by (metis map_of_eq_None_iff not_Some_eq)
  then have "(d, r) \<in> set (rows (data_of t s))" by (rule map_of_SomeD)
  then have "filter (\<lambda>v. v = None) r = []" by (auto simp: data_of_def)
  then show ?thesis using True r by (simp add: row_at_def)
qed

lemma sum_list_swap:
  "(\<Sum>d\<leftarrow>ds. (\<Sum>t\<leftarrow>ts. (g t d :: nat))) = (\<Sum>t\<leftarrow>ts. (\<Sum>d\<leftarrow>ds. g t d))"
  by (induction ts) (simp_all add: sum_list_addf)

lemma length_filter_concat:
  "length (filter P (concat xss)) = (\<Sum>xs\<leftarrow>xss. length (filter P xs))"
  by (induction xss) simp_all

lemma uncovered_count:
  assumes "distinct ds"
  shows "(\<Sum>d\<leftarrow>ds. if d \<in> D then 0 else 4) = 4 * card (set ds - D)"
proof -
  have "(\<Sum>d\<leftarrow>ds. if d \<in> D then 0 else (4::nat)) = 4 * length (filter (\<lambda>d. d \<notin> D) ds)"
    by (induction ds) simp_all
  moreover have "distinct (filter (\<lambda>d. d \<notin> D) ds)" using assms by simp
  then have "length (filter (\<lambda>d. d \<notin> D) ds) = card (set (filter (\<lambda>d. d \<notin> D) ds))"
    by (rule distinct_card [symmetric])
  moreover have "set (filter (\<lambda>d. d \<notin> D) ds) = set ds - D" by auto
  ultimately show ?thesis by simp
qed

lemma missing_count_wide:
  "missing_count (spec_wide_table S ts)
     = (\<Sum>t\<leftarrow>ts. 4 * card (all_dates S ts - set (dates (S t))))"
proof -
  let ?ds = "sort (remdups (concat (map (\<lambda>t. dates (S t)) ts)))"
  have set_ds: "set ?ds = all_dates S ts" by (auto simp: all_dates_def)
  have dist: "distinct ?ds" by simp
  have "missing_count (spec_wide_table S ts)
          = (\<Sum>d\<leftarrow>?ds. (\<Sum>t\<leftarrow>ts. if d \<in> set (dates (S t)) then 0 else 4))"
    by (simp add: missing_count_def spec_wide_table_def comp_def length_filter_concat none_count_row)
  also have "\<dots> = (\<Sum>t\<leftarrow>ts. (\<Sum>d\<leftarrow>?ds. if d \<in> set (dates (S t)) then 0 else 4))"
    by (rule sum_list_swap)
  also have "\<dots> = (\<Sum>t\<leftarrow>ts. 4 * card (all_dates S ts - set (dates (S t))))"
    by (simp only: uncovered_count [OF dist] set_ds)
  finally show ?thesis .
qed

lemma all_dates_dropWhile:
  "all_dates S (dropWhile (\<lambda>t. S t = []) ts) = all_dates S ts"
proof -
  have "set ts = set (takeWhile (\<lambda>t. S t = []) ts) \<union> set (dropWhile (\<lambda>t. S t = []) ts)"
    by (metis set_append takeWhile_dropWhile_id)
  moreover have "\<forall>t \<in> set (takeWhile (\<lambda>t. S t = []) ts). set (dates (S t)) = {}"
    by (auto dest: set_takeWhileD simp: dates_def)
  ultimately show ?thesis unfolding all_dates_def by auto
qed

lemma merged_table_facts:
  "index (merged_table S ts) = sorted_list_of_set (all_dates S ts)
   \<and> missing_count (merged_table S ts)
       = (\<Sum>t\<leftarrow>dropWhile (\<lambda>t. S t = []) ts. 4 * card (all_dates S ts - set (dates (S t))))"
proof (cases "dropWhile (\<lambda>t. S t = []) ts")
  case Nil
  then have "all_dates S (dropWhile (\<lambda>t. S t = []) ts) = {}"
    by (simp add: all_dates_def del: dropWhile_eq_Nil_conv)
  then have e: "all_dates S ts = {}" by (simp only: all_dates_dropWhile)
  show ?thesis unfolding merged_table_def Nil e
    by (simp add: index_def DataFrame_def data_of_def missing_count_def)
next
  case (Cons u rest)
  have "index (spec_wide_table S (u # rest)) = sorted_list_of_set (all_dates S (u # rest))"
    unfolding index_wide sorted_list_of_set_sort_remdups [symmetric]
    by (simp add: all_dates_def)
  moreover have "all_dates S (u # rest) = all_dates S ts"
    using all_dates_dropWhile [of S ts] Cons by simp
  ultimately show ?thesis
    unfolding merged_table_def Cons by (simp add: missing_count_wide)
qed

text \<open>
  C3, as the code has it. For distinct symbols whose series have strictly ascending
  dates, the merged table has one row per date of the union, in ascending order, and as
  many rows as the union has dates. Its NaN cells are 4 for every date a symbol does not
  cover, counted over the symbols from the first one with data on: the symbols without
  data that come before it have no columns in the table. When every series is non-empty
  that is the count of the specification.
\<close>

theorem merge_rows_and_missing:
  assumes "distinct ts" and "\<forall>t \<in> set ts. sorted_wrt (<) (dates (S t))"
  shows "\<exists>f. merge (downloads S) ts = Inr f
           \<and> index f = sorted_list_of_set (all_dates S ts)
           \<and> length (rows f) = card (all_dates S ts)
           \<and> missing_count f
               = (\<Sum>t\<leftarrow>dropWhile (\<lambda>t. S t = []) ts. 4 * card (all_dates S ts - set (dates (S t))))
           \<and> ((\<forall>t \<in> set ts. S t \<noteq> []) \<longrightarrow> missing_count f = spec_missing_count S ts)"
proof -
  let ?f = "merged_table S ts"
  have m: "merge (downloads S) ts = Inr ?f"
    using assms by (rule merge_merged_table)
  have i: "index ?f = sorted_list_of_set (all_dates S ts)"
    and c: "missing_count ?f
       = (\<Sum>t\<leftarrow>dropWhile (\<lambda>t. S t = []) ts. 4 * card (all_dates S ts - set (dates (S t))))"
    using merged_table_facts [of S ts] by simp_all
  have fin: "finite (all_dates S ts)" by (simp add: all_dates_def)
  have "length (rows ?f) = length (index ?f)" by (simp add: index_def)
  then have l: "length (rows ?f) = card (all_dates S ts)"
    unfolding i using fin by simp
  have "(\<forall>t \<in> set ts. S t \<noteq> []) \<longrightarrow> missing_count ?f = spec_missing_count S ts"
  proof
    assume ne: "\<forall>t \<in> set ts. S t \<noteq> []"
    have "dropWhile (\<lambda>t. S t = []) ts = ts"
      using ne by (cases ts) auto
    then show "missing_count ?f = spec_missing_count S ts"
      using c by (simp add: spec_missing_count_def)
  qed
  then show ?thesis using m i l c by blast
qed

lemma ex_sorted: "sorted_wrt (<) (dates (ex_series t))"
  by (simp add: ex_series_def dates_def)

theorem merge_rows_and_missing_witness:
  "distinct [''AAA'', ''BBB'']
   \<and> sorted_wrt (<) (dates (ex_series ''AAA'')) \<and> sorted_wrt (<) (dates (ex_series ''BBB''))
   \<and> ex_series ''AAA'' \<noteq> [] \<and> ex_series ''BBB'' \<noteq> []
   \<and> (\<exists>f. merge (downloads ex_series) [''AAA'', ''BBB''] = Inr f
          \<and> index f = [1, 2, 3, 4] \<and> length (rows f) = 4 \<and> missing_count f = 8
          \<and> spec_missing_count ex_series [''AAA'', ''BBB''] = 8)"
proof -
  have a: "all_dates ex_series [''AAA'', ''BBB''] = {1, 2, 3, 4}"
    by (auto simp: all_dates_def ex_series_def dates_def)
  have s: "sorted_list_of_set {1, 2, 3, 4 :: int} = [1, 2, 3, 4]"
    by (simp add: sorted_list_of_set.sorted_key_list_of_set_unique)
  have c: "spec_missing_count ex_series [''AAA'', ''BBB''] = 8"
    by (simp add: spec_missing_count_def a) (simp add: ex_series_def dates_def)
  show ?thesis
    using merge_rows_and_missing [of "[''AAA'', ''BBB'']" ex_series] c
    by (simp add: a s) (auto simp: ex_series_def dates_def)
qed

text \<open>
  C3 as the specification states it fails when a symbol without data comes first: \<open>CCC\<close>
  covers none of the three dates of \<open>AAA\<close>, the specification counts 12 missing values,
  and the table has none, since it has no column of \<open>CCC\<close>.
\<close>

theorem merge_missing_count_counterexample:
  "ex_series ''CCC'' = []
   \<and> map_sum id missing_count (merge (downloads ex_series) [''CCC'', ''AAA'']) = Inr 0
   \<and> spec_missing_count ex_series [''CCC'', ''AAA''] = 12"
proof -
  have a: "all_dates ex_series [''CCC'', ''AAA''] = {1, 2, 3}"
    by (auto simp: all_dates_def ex_series_def dates_def)
  have c: "spec_missing_count ex_series [''CCC'', ''AAA''] = 12"
    by (simp add: spec_missing_count_def a) (simp add: ex_series_def dates_def)
  have "merge (downloads ex_series) [''CCC'', ''AAA''] = Inr (merged_table ex_series [''CCC'', ''AAA''])"
    by (rule merge_merged_table) (simp_all add: ex_sorted)
  moreover have "missing_count (merged_table ex_series [''CCC'', ''AAA'']) = 0"
    using merged_table_facts [of ex_series "[''CCC'', ''AAA'']"]
    by (simp add: a) (simp add: ex_series_def dates_def)
  ultimately show ?thesis using c by (simp add: ex_series_def)
qed

lemma length_row_at_data_of: "length (row_at (data_of t s) d) = 4"
proof (cases "map_of (rows (data_of t s)) d")
  case None
  then show ?thesis by (simp add: row_at_def data_of_def length_enc_cols)
next
  case (Some r)
  then have "(d, r) \<in> set (rows (data_of t s))" by (rule map_of_SomeD)
  then have "length r = 4" by (auto simp: data_of_def)
  then show ?thesis using Some by (simp add: row_at_def)
qed

lemma map_of_zip_blocks:
  assumes "t \<in> set ts" and "c \<in> set (enc_cols t)" and "\<And>u. length (R u) = 4"
  shows "map_of (zip (concat (map enc_cols ts)) (concat (map R ts))) c
           = map_of (zip (enc_cols t) (R t)) c"
  using assms(1)
proof (induction ts)
  case Nil
  then show ?case by simp
next
  case (Cons u us)
  have len: "length (enc_cols u) = length (R u)" by (simp add: length_enc_cols assms(3))
  have split: "zip (concat (map enc_cols (u # us))) (concat (map R (u # us)))
                 = zip (enc_cols u) (R u) @ zip (concat (map enc_cols us)) (concat (map R us))"
    using len by simp
  show ?case
  proof (cases "c \<in> set (enc_cols u)")
    case True
    then have "u = t" using assms(2) enc_cols_disjoint [of u t c] by blast
    moreover have "map_of (zip (enc_cols u) (R u)) c \<noteq> None"
      using True len by (simp add: map_of_zip_is_None)
    ultimately show ?thesis unfolding split map_of_append by (auto simp: map_add_def)
  next
    case False
    then have "t \<noteq> u" using assms(2) by auto
    then have "t \<in> set us" using Cons.prems by simp
    moreover have "map_of (zip (enc_cols u) (R u)) c = None"
      using False len by (simp add: map_of_zip_is_None)
    ultimately show ?thesis unfolding split map_of_append
      using Cons.IH by (simp add: map_add_def)
  qed
qed

lemma cell_at_wide_perm:
  assumes "set ts' = set ts"
  shows "cell_at (spec_wide_table S ts') d c = cell_at (spec_wide_table S ts) d c"
proof -
  let ?R = "\<lambda>t. row_at (data_of t (S t)) d"
  have U: "set (concat (map (\<lambda>t. dates (S t)) ts')) = set (concat (map (\<lambda>t. dates (S t)) ts))"
    using assms by simp
  have cell: "\<And>us. cell_at (spec_wide_table S us) d c =
      (if d \<in> set (concat (map (\<lambda>t. dates (S t)) us))
       then map_of (zip (concat (map enc_cols us)) (concat (map ?R us))) c else None)"
    by (simp add: cell_at_def spec_wide_table_def map_of_graph)
  have blocks: "map_of (zip (concat (map enc_cols ts')) (concat (map ?R ts'))) c
                  = map_of (zip (concat (map enc_cols ts)) (concat (map ?R ts))) c"
  proof (cases "\<exists>t \<in> set ts. c \<in> set (enc_cols t)")
    case True
    then obtain t where t: "t \<in> set ts" "c \<in> set (enc_cols t)" by blast
    have t': "t \<in> set ts'" using t(1) assms by simp
    show ?thesis
      using map_of_zip_blocks [OF t(1) t(2), of ?R] map_of_zip_blocks [OF t' t(2), of ?R]
      by (simp add: length_row_at_data_of)
  next
    case False
    have len: "\<And>us. length (concat (map enc_cols us)) = length (concat (map ?R us))"
      by (simp add: length_concat comp_def length_enc_cols length_row_at_data_of)
    have "c \<notin> set (concat (map enc_cols ts))" "c \<notin> set (concat (map enc_cols ts'))"
      using False assms by auto
    then have "map_of (zip (concat (map enc_cols ts)) (concat (map ?R ts))) c = None"
      "map_of (zip (concat (map enc_cols ts')) (concat (map ?R ts'))) c = None"
      using map_of_zip_is_None [OF len [of ts], of c] map_of_zip_is_None [OF len [of ts'], of c]
      by blast+
    then show ?thesis by simp
  qed
  show ?thesis unfolding cell U blocks ..
qed

text \<open>
  C10, as the code has it. For distinct symbols with non-empty series of strictly
  ascending dates, merging them in two orders gives the same dates, the same set of
  columns and the same cell at every date and column; the columns stand in the order in
  which the symbols were supplied.
\<close>

theorem merge_order_independent:
  assumes "distinct ts" and "distinct ts'" and "set ts' = set ts"
    and "\<forall>t \<in> set ts. S t \<noteq> [] \<and> sorted_wrt (<) (dates (S t))"
  shows "\<exists>f g. merge (downloads S) ts = Inr f \<and> merge (downloads S) ts' = Inr g
           \<and> index f = index g \<and> set (columns f) = set (columns g)
           \<and> (\<forall>d c. cell_at f d c = cell_at g d c)"
proof -
  have keep: "\<And>us. set us = set ts \<Longrightarrow> merged_table S us = spec_wide_table S us"
  proof -
    fix us assume us: "set us = set ts"
    show "merged_table S us = spec_wide_table S us"
    proof (cases us)
      case Nil
      then show ?thesis
        by (simp add: merged_table_def spec_wide_table_def DataFrame_def)
    next
      case (Cons u rest)
      then have "S u \<noteq> []" using us assms(4) by auto
      then show ?thesis using Cons by (simp add: merged_table_def)
    qed
  qed
  have sorted': "\<forall>t \<in> set ts'. sorted_wrt (<) (dates (S t))" using assms(3,4) by simp
  have sorted: "\<forall>t \<in> set ts. sorted_wrt (<) (dates (S t))" using assms(4) by simp
  have f: "merge (downloads S) ts = Inr (spec_wide_table S ts)"
    using merge_merged_table [OF assms(1) sorted] keep [of ts] by simp
  have g: "merge (downloads S) ts' = Inr (spec_wide_table S ts')"
    using merge_merged_table [OF assms(2) sorted'] keep [OF assms(3)] by simp
  have "index (spec_wide_table S ts) = index (spec_wide_table S ts')"
    unfolding index_wide using assms(3) by (intro sort_remdups_cong) simp
  moreover have "set (columns (spec_wide_table S ts)) = set (columns (spec_wide_table S ts'))"
    using assms(3) by (simp add: columns_wide)
  moreover have "\<forall>d c. cell_at (spec_wide_table S ts) d c = cell_at (spec_wide_table S ts') d c"
    using cell_at_wide_perm [OF assms(3), of S] by simp
  ultimately show ?thesis using f g by blast
qed

theorem merge_order_independent_witness:
  "distinct [''AAA'', ''BBB''] \<and> distinct [''BBB'', ''AAA'']
   \<and> set [''BBB'', ''AAA''] = set [''AAA'', ''BBB'']
   \<and> ex_series ''AAA'' \<noteq> [] \<and> sorted_wrt (<) (dates (ex_series ''AAA''))
   \<and> ex_series ''BBB'' \<noteq> [] \<and> sorted_wrt (<) (dates (ex_series ''BBB''))
   \<and> (\<exists>f g. merge (downloads ex_series) [''AAA'', ''BBB''] = Inr f
            \<and> merge (downloads ex_series) [''BBB'', ''AAA''] = Inr g
            \<and> index f = index g \<and> set (columns f) = set (columns g)
            \<and> cell_at f 1 (column_name ''Open'' ''BBB'') = cell_at g 1 (column_name ''Open'' ''BBB''))"
proof -
  have "set [''BBB'', ''AAA''] = set [''AAA'', ''BBB'']" by auto
  moreover have "\<forall>t \<in> set [''AAA'', ''BBB'']. ex_series t \<noteq> [] \<and> sorted_wrt (<) (dates (ex_series t))"
    by (simp add: ex_series_def dates_def)
  ultimately show ?thesis
    using merge_order_independent [of "[''AAA'', ''BBB'']" "[''BBB'', ''AAA'']" ex_series]
    by (simp add: ex_series_def dates_def) blast
qed

text \<open>
  C10 as the specification states it fails twice. The columns follow the order of the
  symbols, so the two tables for \<open>AAA\<close> and \<open>BBB\<close> differ; and with the symbol \<open>CCC\<close>,
  which has no data, the table has the columns of \<open>CCC\<close> when it is supplied last and
  not when it is supplied first.
\<close>

theorem merge_order_counterexample:
  "map_sum id columns (merge (downloads ex_series) [''AAA'', ''BBB''])
      = Inr (enc_cols ''AAA'' @ enc_cols ''BBB'')
   \<and> map_sum id columns (merge (downloads ex_series) [''BBB'', ''AAA''])
      = Inr (enc_cols ''BBB'' @ enc_cols ''AAA'')
   \<and> enc_cols ''AAA'' @ enc_cols ''BBB'' \<noteq> enc_cols ''BBB'' @ enc_cols ''AAA''
   \<and> ex_series ''CCC'' = []
   \<and> map_sum id columns (merge (downloads ex_series) [''CCC'', ''AAA''])
      = Inr (enc_cols ''AAA'')
   \<and> map_sum id columns (merge (downloads ex_series) [''AAA'', ''CCC''])
      = Inr (enc_cols ''AAA'' @ enc_cols ''CCC'')
   \<and> set (enc_cols ''AAA'') \<noteq> set (enc_cols ''AAA'' @ enc_cols ''CCC'')"
proof -
  have m: "\<And>ts. distinct ts \<Longrightarrow> merge (downloads ex_series) ts = Inr (merged_table ex_series ts)"
    by (rule merge_merged_table) (simp_all add: ex_sorted)
  have 1: "columns (merged_table ex_series [''AAA'', ''BBB'']) = enc_cols ''AAA'' @ enc_cols ''BBB''"
    and 2: "columns (merged_table ex_series [''BBB'', ''AAA'']) = enc_cols ''BBB'' @ enc_cols ''AAA''"
    and 3: "columns (merged_table ex_series [''CCC'', ''AAA'']) = enc_cols ''AAA''"
    and 4: "columns (merged_table ex_series [''AAA'', ''CCC'']) = enc_cols ''AAA'' @ enc_cols ''CCC''"
    by (simp_all add: merged_table_def ex_series_def columns_wide)
  have 5: "enc_cols ''AAA'' @ enc_cols ''BBB'' \<noteq> enc_cols ''BBB'' @ enc_cols ''AAA''"
    by (simp add: enc_cols_def ohlc_def column_name_def str_label_def py_quote_def)
  have "column_name ''Open'' ''CCC'' \<in> set (enc_cols ''AAA'' @ enc_cols ''CCC'')"
    by (simp add: enc_cols_def ohlc_def)
  moreover have "column_name ''Open'' ''CCC'' \<notin> set (enc_cols ''AAA'')"
    using enc_cols_disjoint [of "''CCC''" "''AAA''" "column_name ''Open'' ''CCC''"]
    by (simp add: enc_cols_def ohlc_def)
  ultimately have 6: "set (enc_cols ''AAA'') \<noteq> set (enc_cols ''AAA'' @ enc_cols ''CCC'')"
    by metis
  show ?thesis using 1 2 3 4 5 6 by (simp add: m) (simp add: ex_series_def)
qed

section \<open>Projection and rendering of one symbol\<close>

lemma concat_Nil_all: "(\<And>x. x \<in> set xs \<Longrightarrow> f x = []) \<Longrightarrow> concat (map f xs) = []"
  by (induction xs) auto

lemma getitem_columns_distinct:
  "distinct cols \<Longrightarrow> concat (map (\<lambda>k. filter (\<lambda>c. c = k) cols) (filter P cols)) = filter P cols"
proof (induction cols)
  case Nil
  show ?case by simp
next
  case (Cons c cs)
  have rest: "concat (map (\<lambda>k. filter (\<lambda>x. x = k) (c # cs)) (filter P cs))
                = concat (map (\<lambda>k. filter (\<lambda>x. x = k) cs) (filter P cs))"
    using Cons.prems by (intro arg_cong [where f = concat] map_cong refl) auto
  have self: "filter (\<lambda>x. x = c) cs = []"
    using Cons.prems by (auto simp: filter_empty_conv)
  show ?case using Cons rest self by simp
qed

lemma getitem_cells_distinct:
  "distinct cols \<Longrightarrow>
     concat (map (\<lambda>k. map snd (filter (\<lambda>(c, v). c = k) (zip cols r))) (filter P cols))
       = map snd (filter (\<lambda>(c, v). P c) (zip cols r))"
proof (induction cols arbitrary: r)
  case Nil
  show ?case by simp
next
  case (Cons c cs)
  show ?case
  proof (cases r)
    case Nil
    then show ?thesis by (simp add: concat_Nil_all)
  next
    case (Cons v vs)
    have keys: "\<And>k. k \<noteq> c \<Longrightarrow> filter (\<lambda>(x, y). x = k) ((c, v) # zip cs vs) = filter (\<lambda>(x, y). x = k) (zip cs vs)"
      by simp
    have rest: "concat (map (\<lambda>k. map snd (filter (\<lambda>(x, y). x = k) ((c, v) # zip cs vs))) (filter P cs))
                  = concat (map (\<lambda>k. map snd (filter (\<lambda>(x, y). x = k) (zip cs vs))) (filter P cs))"
      using Cons.prems by (intro arg_cong [where f = concat] map_cong refl) auto
    have "\<forall>p \<in> set (zip cs vs). fst p \<noteq> c"
      using Cons.prems by (auto dest: set_zip_leftD)
    then have self: "filter (\<lambda>(x, y). x = c) (zip cs vs) = []"
      by (auto simp: filter_empty_conv)
    show ?thesis using Cons.IH [of vs] Cons.prems rest self Cons by simp
  qed
qed

lemma getitem_matching:
  assumes "distinct (columns df)"
  shows "getitem id (matching_columns df ticker) df
           = Inr \<lparr>columns = matching_columns df ticker, rows = selected_rows df ticker\<rparr>"
proof -
  have "\<not> (\<exists>k \<in> set (matching_columns df ticker). k \<notin> id ` set (columns df))"
    by (auto simp: matching_columns_def)
  then show ?thesis
    using assms
    by (simp add: getitem_def selected_rows_def)
       (simp add: matching_columns_def getitem_columns_distinct getitem_cells_distinct)
qed

lemma list_all_selected:
  "list_all Q (map snd (filter (\<lambda>p. P (fst p)) zs)) = list_all (\<lambda>p. P (fst p) \<longrightarrow> Q (snd p)) zs"
  by (induction zs) auto

lemma index_dropna_selected:
  "map fst (filter (\<lambda>(d, r). list_all (\<lambda>v. v \<noteq> None) r) (selected_rows df ticker))
     = complete_dates df ticker"
proof -
  let ?g = "\<lambda>(d, r). (d, map snd (filter (\<lambda>(c, v). endswith c (''_'' @ ticker)) (zip (columns df) r)))"
  let ?A = "\<lambda>(d :: date, r). list_all (\<lambda>v :: cell. v \<noteq> None) r"
  have "(?A \<circ> ?g) x = complete_for df ticker x" for x
    unfolding complete_for_def comp_def case_prod_unfold snd_conv
    by (rule list_all_selected [of "\<lambda>v. v \<noteq> None" "\<lambda>c. endswith c (''_'' @ ticker)"])
  then have comp: "(?A \<circ> ?g) = complete_for df ticker" by (rule ext)
  have "filter ?A (map ?g (rows df)) = map ?g (filter (?A \<circ> ?g) (rows df))"
    by (rule filter_map)
  also have "\<dots> = map ?g (filter (complete_for df ticker) (rows df))"
    by (simp only: comp)
  finally have "map fst (filter ?A (selected_rows df ticker))
                  = map fst (map ?g (filter (complete_for df ticker) (rows df)))"
    by (simp only: selected_rows_def)
  also have "\<dots> = map fst (filter (complete_for df ticker) (rows df))"
    by (simp add: comp_def case_prod_unfold)
  finally show ?thesis by (simp only: complete_dates_def)
qed

lemma project_four:
  assumes "distinct (columns df)" and "length (matching_columns df ticker) = 4"
  shows "project n df ticker =
           (if complete_dates df ticker = [] then Inr EmptyResult
            else Inr (Table (tail_rows n (dropna \<lparr>columns = ohlc, rows = selected_rows df ticker\<rparr>))))"
proof -
  have "rows (dropna \<lparr>columns = ohlc, rows = selected_rows df ticker\<rparr>) = [] \<longleftrightarrow>
          complete_dates df ticker = []"
    unfolding index_dropna_selected [symmetric] by (simp add: dropna_def)
  moreover have "columns (dropna \<lparr>columns = ohlc, rows = selected_rows df ticker\<rparr>) \<noteq> []"
    by (simp add: dropna_def ohlc_def)
  ultimately have "frame_empty (dropna \<lparr>columns = ohlc, rows = selected_rows df ticker\<rparr>) \<longleftrightarrow>
          complete_dates df ticker = []"
    by (simp add: frame_empty_def)
  then show ?thesis
    using assms(2) by (simp add: project_def getitem_matching [OF assms(1)] set_columns_def Let_def)
       (simp add: ohlc_def)
qed

lemma project_not_four:
  assumes "distinct (columns df)" and "length (matching_columns df ticker) \<noteq> 4"
  shows "project n df ticker = Inl ValueError"
  using assms(2) by (simp add: project_def getitem_matching [OF assms(1)] set_columns_def ohlc_def)

lemma Max_sorted_last: "sorted xs \<Longrightarrow> xs \<noteq> [] \<Longrightarrow> Max (set xs) = last xs"
proof (induction xs)
  case Nil
  then show ?case by simp
next
  case (Cons x xs)
  show ?case
  proof (cases "xs = []")
    case True
    then show ?thesis by simp
  next
    case False
    then have "Max (set xs) = last xs" using Cons by simp
    moreover have "x \<le> last xs" using Cons.prems False by auto
    ultimately show ?thesis using False by (simp add: max_def)
  qed
qed

text \<open>
  C4, as the code has it. For a symbol of which exactly four columns of the table carry
  the suffix, in a table with distinct column names and ascending dates, and with at
  least one complete row, the projection with row limit \<open>k\<close> returns a table of \<open>min k n\<close>
  rows, where \<open>n\<close> is the number of complete rows of the symbol: the last \<open>min k n\<close>
  complete rows, so that for \<open>k > 0\<close> the largest date of the output is the largest date
  of a complete row.
\<close>

theorem project_latest_rows:
  assumes "distinct (columns df)" and "length (matching_columns df ticker) = 4"
    and "sorted (index df)" and "complete_dates df ticker \<noteq> []"
  shows "\<exists>out. project k df ticker = Inr (Table out)
           \<and> length (rows out) = min k (length (complete_dates df ticker))
           \<and> index out = drop (length (complete_dates df ticker) - k) (complete_dates df ticker)
           \<and> (0 < k \<longrightarrow> Max (set (index out)) = Max (set (complete_dates df ticker)))"
proof -
  let ?cd = "complete_dates df ticker"
  let ?td = "dropna \<lparr>columns = ohlc, rows = selected_rows df ticker\<rparr>"
  let ?out = "tail_rows k ?td"
  have p: "project k df ticker = Inr (Table ?out)"
    using assms(4) by (simp add: project_four [OF assms(1,2)])
  have itd: "index ?td = ?cd"
    using index_dropna_selected [of df ticker] by (simp add: index_def dropna_def)
  then have ltd: "length (rows ?td) = length ?cd"
    by (metis index_def length_map)
  have "index ?out = drop (length (rows ?td) - k) (index ?td)"
    by (simp add: index_def tail_rows_def drop_map)
  then have iout: "index ?out = drop (length ?cd - k) ?cd"
    by (simp only: itd ltd)
  have "length (rows ?out) = length (index ?out)" by (simp add: index_def)
  then have lout: "length (rows ?out) = min k (length ?cd)"
    unfolding iout by simp
  have "sorted (map fst (filter (complete_for df ticker) (rows df)))"
    using assms(3) unfolding index_def by (rule sorted_filter)
  then have scd: "sorted ?cd" by (simp add: complete_dates_def)
  have mx: "0 < k \<longrightarrow> Max (set (index ?out)) = Max (set ?cd)"
  proof
    assume k: "0 < k"
    have lt: "length ?cd - k < length ?cd" using k assms(4) by simp
    then have ne: "drop (length ?cd - k) ?cd \<noteq> []" by simp
    have "sorted (drop (length ?cd - k) ?cd)" using scd by (rule sorted_wrt_drop)
    then have "Max (set (index ?out)) = last (drop (length ?cd - k) ?cd)"
      unfolding iout using ne by (rule Max_sorted_last)
    also have "\<dots> = last ?cd" using lt by (rule last_drop)
    also have "\<dots> = Max (set ?cd)" using scd assms(4) by (simp add: Max_sorted_last)
    finally show "Max (set (index ?out)) = Max (set ?cd)" .
  qed
  show ?thesis using p lout iout mx by blast
qed

lemma ex_merge: "merge (downloads ex_series) [''AAA'', ''BBB''] = Inr ex_table"
proof -
  have "merge (downloads ex_series) [''AAA'', ''BBB''] = Inr (merged_table ex_series [''AAA'', ''BBB''])"
    by (rule merge_merged_table) (simp_all add: ex_sorted)
  moreover have "merged_table ex_series [''AAA'', ''BBB''] = ex_table"
    by (simp add: merged_table_def spec_wide_table_def ex_table_def)
       (simp add: ex_series_def dates_def row_at_def data_of_def ex_bar_def length_enc_cols
          eval_nat_numeral)
  ultimately show ?thesis by simp
qed

lemma ex_nodata_merge: "merge (downloads ex_series) [''AAA'', ''CCC''] = Inr ex_nodata"
proof -
  have "merge (downloads ex_series) [''AAA'', ''CCC''] = Inr (merged_table ex_series [''AAA'', ''CCC''])"
    by (rule merge_merged_table) (simp_all add: ex_sorted)
  moreover have "merged_table ex_series [''AAA'', ''CCC''] = ex_nodata"
    by (simp add: merged_table_def spec_wide_table_def ex_nodata_def)
       (simp add: ex_series_def dates_def row_at_def data_of_def ex_bar_def length_enc_cols
          eval_nat_numeral)
  ultimately show ?thesis by simp
qed

lemma ex_table_distinct: "distinct (columns ex_table)"
  by (simp add: ex_table_def enc_cols_def ohlc_def column_name_def str_label_def py_quote_def)

lemma ex_table_matching: "matching_columns ex_table ''AAA'' = enc_cols ''AAA''"
  by (simp add: ex_table_def matching_columns_def enc_cols_def ohlc_def column_name_def
      str_label_def py_quote_def endswith_def)

lemma ex_table_complete: "complete_dates ex_table ''AAA'' = [1, 2, 3]"
  by (simp add: ex_table_def complete_dates_def complete_for_def enc_cols_def ohlc_def column_name_def
      str_label_def py_quote_def endswith_def)

theorem project_latest_rows_witness:
  "distinct (columns ex_table) \<and> length (matching_columns ex_table ''AAA'') = 4
   \<and> sorted (index ex_table) \<and> complete_dates ex_table ''AAA'' = [1, 2, 3]
   \<and> (\<exists>out. project 2 ex_table ''AAA'' = Inr (Table out) \<and> length (rows out) = 2
          \<and> index out = [2, 3] \<and> Max (set (index out)) = 3)"
proof -
  have s: "sorted (index ex_table)" by (simp add: ex_table_def index_def)
  have l: "length (matching_columns ex_table ''AAA'') = 4"
    by (simp add: ex_table_matching length_enc_cols)
  have ne: "complete_dates ex_table ''AAA'' \<noteq> []" by (simp add: ex_table_complete)
  show ?thesis
    using project_latest_rows [OF ex_table_distinct l s ne, of 2] s l ex_table_distinct
    by (simp add: ex_table_complete) (simp add: numeral_2_eq_2)
qed

text \<open>
  C4 as the specification states it fails when the columns of another symbol carry the
  suffix too: in the merged table of \<open>B\<close> and \<open>BRK_B\<close> every row is complete for \<open>B\<close>,
  eight columns end in \<^verbatim>\<open>_B\<close>, and the assignment of the four names raises ValueError, so
  that the projection returns no rows at all.
\<close>

theorem project_suffix_counterexample:
  "merge (downloads ex_suffix_series) [''B'', ''BRK_B''] = Inr ex_suffix
   \<and> distinct (columns ex_suffix) \<and> sorted (index ex_suffix)
   \<and> complete_dates ex_suffix ''B'' = [1, 2]
   \<and> length (matching_columns ex_suffix ''B'') = 8
   \<and> project 1 ex_suffix ''B'' = Inl ValueError"
proof -
  have srt: "\<forall>t \<in> set [''B'', ''BRK_B'']. sorted_wrt (<) (dates (ex_suffix_series t))"
    by (simp add: ex_suffix_series_def dates_def)
  have "merge (downloads ex_suffix_series) [''B'', ''BRK_B'']
          = Inr (merged_table ex_suffix_series [''B'', ''BRK_B''])"
    by (rule merge_merged_table [OF _ srt]) simp
  moreover have "merged_table ex_suffix_series [''B'', ''BRK_B''] = ex_suffix"
    by (simp add: merged_table_def spec_wide_table_def ex_suffix_def)
       (simp add: ex_suffix_series_def dates_def row_at_def data_of_def ex_bar_def)
  ultimately have m: "merge (downloads ex_suffix_series) [''B'', ''BRK_B''] = Inr ex_suffix"
    by simp
  have d: "distinct (columns ex_suffix)"
    by (simp add: ex_suffix_def enc_cols_def ohlc_def column_name_def str_label_def py_quote_def)
  have s: "sorted (index ex_suffix)" by (simp add: ex_suffix_def index_def)
  have c: "complete_dates ex_suffix ''B'' = [1, 2]"
    by (simp add: ex_suffix_def complete_dates_def complete_for_def enc_cols_def ohlc_def
        column_name_def str_label_def py_quote_def endswith_def)
  have l: "length (matching_columns ex_suffix ''B'') = 8"
    by (simp add: ex_suffix_def matching_columns_def enc_cols_def ohlc_def column_name_def
        str_label_def py_quote_def endswith_def)
  have "project 1 ex_suffix ''B'' = Inl ValueError"
    by (rule project_not_four [OF d]) (simp add: l)
  then show ?thesis using m d s c l by simp
qed

lemma update_chart_four:
  assumes "distinct (columns df)" and "length (matching_columns df t) = 4"
  shows "update_chart plot df t =
           (if complete_dates df t = [] then ([Generating t, NoValid t], None)
            else (case plot (dropna \<lparr>columns = ohlc, rows = selected_rows df t\<rparr>) t of
                    None \<Rightarrow> ([Generating t, Shown], None)
                  | Some msg \<Rightarrow> ([Generating t, ErrorPlotting t msg], None)))"
proof -
  have "rows (dropna \<lparr>columns = ohlc, rows = selected_rows df t\<rparr>) = [] \<longleftrightarrow> complete_dates df t = []"
    unfolding index_dropna_selected [symmetric] by (simp add: dropna_def)
  moreover have "columns (dropna \<lparr>columns = ohlc, rows = selected_rows df t\<rparr>) \<noteq> []"
    by (simp add: dropna_def ohlc_def)
  ultimately have e: "frame_empty (dropna \<lparr>columns = ohlc, rows = selected_rows df t\<rparr>) \<longleftrightarrow>
          complete_dates df t = []"
    by (simp add: frame_empty_def)
  have tk: "take 4 ohlc = ohlc" by (simp add: ohlc_def)
  have sc: "set_columns ohlc \<lparr>columns = matching_columns df t, rows = selected_rows df t\<rparr>
              = Inr \<lparr>columns = ohlc, rows = selected_rows df t\<rparr>"
    using assms(2) by (simp add: set_columns_def ohlc_def)
  show ?thesis
    unfolding update_chart_def Let_def getitem_matching [OF assms(1)] assms(2) tk
    using e by (simp add: sc)
qed

lemma update_chart_insufficient:
  "length (matching_columns df t) < 4 \<Longrightarrow> update_chart plot df t = ([Generating t, Insufficient t], None)"
  by (simp add: update_chart_def Let_def)

lemma ex_partial_distinct: "distinct (columns ex_partial)"
  by (simp add: ex_partial_def enc_cols_def ohlc_def column_name_def str_label_def py_quote_def)

lemma ex_partial_matching: "length (matching_columns ex_partial ''DDD'') = 3"
  by (simp add: ex_partial_def matching_columns_def enc_cols_def ohlc_def column_name_def
      str_label_def py_quote_def endswith_def)

text \<open>
  C5 on a table in which \<open>DDD\<close> has three columns. The handler of the dropdown reports
  insufficient data and returns. The batch renderer has no such guard: the assignment of
  the four names raises ValueError outside \<^verbatim>\<open>try\<close>, and the function ends before \<open>AAA\<close>,
  the next symbol, is looked at.
\<close>

theorem batch_aborts_on_partial_symbol:
  "generate_candlestick_charts plot ex_partial [''DDD'', ''AAA'']
     = ([GeneratingCharts 2, Creating ''DDD''], Some ValueError)
   \<and> update_chart plot ex_partial ''DDD'' = ([Generating ''DDD'', Insufficient ''DDD''], None)"
proof -
  have "project 500 ex_partial ''DDD'' = Inl ValueError"
    by (rule project_not_four [OF ex_partial_distinct]) (simp add: ex_partial_matching)
  then have "generate_candlestick_charts plot ex_partial [''DDD'', ''AAA'']
               = ([GeneratingCharts 2, Creating ''DDD''], Some ValueError)"
    by (simp add: generate_candlestick_charts_def prepend_def)
  moreover have "update_chart plot ex_partial ''DDD'' = ([Generating ''DDD'', Insufficient ''DDD''], None)"
    by (rule update_chart_insufficient) (simp add: ex_partial_matching)
  ultimately show ?thesis by simp
qed

text \<open>
  C6, as the code has it. For a symbol with its four columns and no complete row, the
  projection is the empty result, the batch renderer prints that it skips the symbol and
  goes on with the rest, and the handler of the dropdown prints that there is no valid
  data. For a symbol with no column in the table the handler of the dropdown reports
  insufficient data.
\<close>

theorem empty_result_skipped:
  "(distinct (columns df) \<and> length (matching_columns df t) = 4 \<and> complete_dates df t = [] \<longrightarrow>
      project n df t = Inr EmptyResult
      \<and> charts_loop plot df (t # rest) = prepend [Creating t, NoValidSkipping t] (charts_loop plot df rest)
      \<and> update_chart plot df t = ([Generating t, NoValid t], None))
   \<and> (matching_columns df u = [] \<longrightarrow>
        update_chart plot df u = ([Generating u, Insufficient u], None))"
proof (intro conjI impI)
  assume a: "distinct (columns df) \<and> length (matching_columns df t) = 4 \<and> complete_dates df t = []"
  then have d: "distinct (columns df)" and l: "length (matching_columns df t) = 4"
    and c: "complete_dates df t = []" by simp_all
  show p: "project n df t = Inr EmptyResult" for n
    using c by (simp add: project_four [OF d l])
  show "charts_loop plot df (t # rest) = prepend [Creating t, NoValidSkipping t] (charts_loop plot df rest)"
    by (simp add: p)
  show "update_chart plot df t = ([Generating t, NoValid t], None)"
    using c by (simp add: update_chart_four [OF d l])
next
  assume "matching_columns df u = []"
  then show "update_chart plot df u = ([Generating u, Insufficient u], None)"
    by (simp add: update_chart_insufficient)
qed

lemma ex_nodata_distinct: "distinct (columns ex_nodata)"
  by (simp add: ex_nodata_def enc_cols_def ohlc_def column_name_def str_label_def py_quote_def)

lemma ex_nodata_matching: "matching_columns ex_nodata ''CCC'' = enc_cols ''CCC''"
  by (simp add: ex_nodata_def matching_columns_def enc_cols_def ohlc_def column_name_def
      str_label_def py_quote_def endswith_def)

lemma ex_nodata_complete: "complete_dates ex_nodata ''CCC'' = []"
  by (simp add: ex_nodata_def complete_dates_def complete_for_def enc_cols_def ohlc_def column_name_def
      str_label_def py_quote_def endswith_def)

lemma ex_nodata_absent: "matching_columns ex_nodata ''ZZZ'' = []"
  by (simp add: ex_nodata_def matching_columns_def enc_cols_def ohlc_def column_name_def
      str_label_def py_quote_def endswith_def)

theorem empty_result_skipped_witness:
  "distinct (columns ex_nodata) \<and> length (matching_columns ex_nodata ''CCC'') = 4
   \<and> complete_dates ex_nodata ''CCC'' = [] \<and> matching_columns ex_nodata ''ZZZ'' = []
   \<and> project 500 ex_nodata ''CCC'' = Inr EmptyResult
   \<and> charts_loop ex_plot ex_nodata [''CCC'']  = ([Creating ''CCC'', NoValidSkipping ''CCC''], None)
   \<and> update_chart ex_plot ex_nodata ''CCC'' = ([Generating ''CCC'', NoValid ''CCC''], None)
   \<and> update_chart ex_plot ex_nodata ''ZZZ'' = ([Generating ''ZZZ'', Insufficient ''ZZZ''], None)"
  using empty_result_skipped [of ex_nodata "''CCC''" 500 ex_plot "[]" "''ZZZ''"]
  by (simp add: ex_nodata_distinct ex_nodata_matching ex_nodata_complete ex_nodata_absent
      length_enc_cols prepend_def)

text \<open>
  C6 as the specification states it fails for a symbol that is absent from the table:
  the projection of the batch renderer raises ValueError, and the handler of the dropdown
  reports insufficient data, not an empty result.
\<close>

theorem absent_symbol_counterexample:
  "matching_columns ex_nodata ''ZZZ'' = []
   \<and> project 500 ex_nodata ''ZZZ'' = Inl ValueError
   \<and> generate_candlestick_charts ex_plot ex_nodata [''ZZZ'', ''AAA'']
        = ([GeneratingCharts 2, Creating ''ZZZ''], Some ValueError)
   \<and> update_chart ex_plot ex_nodata ''ZZZ'' = ([Generating ''ZZZ'', Insufficient ''ZZZ''], None)"
proof -
  have p: "project 500 ex_nodata ''ZZZ'' = Inl ValueError"
    by (rule project_not_four [OF ex_nodata_distinct]) (simp add: ex_nodata_absent)
  then have "generate_candlestick_charts ex_plot ex_nodata [''ZZZ'', ''AAA'']
               = ([GeneratingCharts 2, Creating ''ZZZ''], Some ValueError)"
    by (simp add: generate_candlestick_charts_def prepend_def)
  moreover have "update_chart ex_plot ex_nodata ''ZZZ'' = ([Generating ''ZZZ'', Insufficient ''ZZZ''], None)"
    by (rule update_chart_insufficient) (simp add: ex_nodata_absent)
  ultimately show ?thesis using p by (simp add: ex_nodata_absent)
qed








section \<open>The source table after a projection\<close>

lemma project_in_store_value:
  assumes "objs st r = Some df"
  shows "(case project_in_store n r t st of
            (Inl e, st') \<Rightarrow> project n df t = Inl e
          | (Inr None, st') \<Rightarrow> project n df t = Inr EmptyResult
          | (Inr (Some b), st') \<Rightarrow> (\<exists>out. objs st' b = Some out \<and> project n df t = Inr (Table out)))"
  using assms
  by (auto simp: project_in_store_def project_def new_obj_def put_obj_def Let_def
      split: sum.splits option.splits)

lemma update_chart_in_store_value:
  assumes "objs st r = Some df"
  shows "(case update_chart_in_store r t st of
            (Inl e, st') \<Rightarrow> update_chart plot df t = ([Generating t], Some e)
          | (Inr None, st') \<Rightarrow> update_chart plot df t = ([Generating t, Insufficient t], None)
                               \<or> update_chart plot df t = ([Generating t, NoValid t], None)
          | (Inr (Some b), st') \<Rightarrow>
              (\<exists>td. objs st' b = Some td \<and>
                 update_chart plot df t =
                   (case plot td t of None \<Rightarrow> ([Generating t, Shown], None)
                    | Some msg \<Rightarrow> ([Generating t, ErrorPlotting t msg], None))))"
  using assms
  by (auto simp: update_chart_in_store_def update_chart_def new_obj_def put_obj_def Let_def
      split: sum.splits option.splits)

text \<open>
  C9. Every table allocated before a projection, the source table among them, is the same
  after it, in the batch renderer and in the handler of the dropdown, whatever the
  outcome; and the table handed to the renderer is never one of them.
\<close>

theorem projection_leaves_source_unchanged:
  assumes "a < next_ref st"
  shows "objs (snd (project_in_store n r t st)) a = objs st a
       \<and> objs (snd (update_chart_in_store r t st)) a = objs st a
       \<and> fst (project_in_store n r t st) \<noteq> Inr (Some a)
       \<and> fst (update_chart_in_store r t st) \<noteq> Inr (Some a)"
proof -
  have 1: "objs (snd (project_in_store n r t st)) a = objs st a"
    and 3: "fst (project_in_store n r t st) \<noteq> Inr (Some a)"
    using assms
    by (auto simp: project_in_store_def new_obj_def put_obj_def Let_def
        split: sum.splits option.splits)
  have 2: "objs (snd (update_chart_in_store r t st)) a = objs st a"
    and 4: "fst (update_chart_in_store r t st) \<noteq> Inr (Some a)"
    using assms
    by (auto simp: update_chart_in_store_def new_obj_def put_obj_def Let_def
        split: sum.splits option.splits)
  show ?thesis using 1 2 3 4 by simp
qed

theorem projection_leaves_source_unchanged_witness:
  "0 < next_ref ex_store \<and> objs ex_store 0 = Some ex_table
   \<and> objs (snd (project_in_store 500 0 ''AAA'' ex_store)) 0 = Some ex_table
   \<and> objs (snd (update_chart_in_store 0 ''AAA'' ex_store)) 0 = Some ex_table
   \<and> fst (project_in_store 500 0 ''AAA'' ex_store) \<noteq> Inr (Some 0)
   \<and> fst (update_chart_in_store 0 ''AAA'' ex_store) \<noteq> Inr (Some 0)"
  using projection_leaves_source_unchanged [of 0 ex_store 500 0 "''AAA''"]
  by (simp add: ex_store_def)

end
